theory Spec2Isabelle
  imports Complex_Main "HOL-Library.Multiset"
begin

section \<open>The dependency scanner of npm-scanner, embedded\<close>

text \<open>
  The development follows \<^verbatim>\<open>weather-cli-test/dependency-scanner.js\<close>, class
  \<^verbatim>\<open>DependencyScanner\<close>. Strings are character lists. Every string operation the
  scanner uses searches for ASCII characters only, so the difference between UTF-16 code
  units and bytes does not show.
\<close>

subsection \<open>String operations of the language\<close>

text \<open>\<^verbatim>\<open>s.startsWith(p)\<close>.\<close>

definition startsWith :: "string \<Rightarrow> string \<Rightarrow> bool" where
  "startsWith s p = (take (length p) s = p)"

text \<open>\<^verbatim>\<open>s.includes(p)\<close>: \<open>p\<close> occurs somewhere in \<open>s\<close>.\<close>

fun includes_str :: "string \<Rightarrow> string \<Rightarrow> bool" where
  "includes_str [] p = (p = [])"
| "includes_str (c # cs) p = (startsWith (c # cs) p \<or> includes_str cs p)"

text \<open>
  \<^verbatim>\<open>s.replace(pat, rep)\<close> with a string pattern: only the first occurrence of
  \<open>pat\<close> is replaced, wherever it stands.
\<close>

fun replace :: "string \<Rightarrow> string \<Rightarrow> string \<Rightarrow> string" where
  "replace [] pat rep = (if pat = [] then rep else [])"
| "replace (c # cs) pat rep =
     (if startsWith (c # cs) pat then rep @ drop (length pat) (c # cs)
      else c # replace cs pat rep)"

text \<open>\<^verbatim>\<open>s.split(sep)\<close> for a one-character separator; the result is never empty.\<close>

fun split :: "string \<Rightarrow> char \<Rightarrow> string list" where
  "split [] sep = [[]]"
| "split (c # cs) sep =
     (if c = sep then [] # split cs sep
      else (case split cs sep of
              [] \<Rightarrow> [[c]]
            | w # ws \<Rightarrow> (c # w) # ws))"

text \<open>\<^verbatim>\<open>a.pop()\<close> read for its value on a non-empty array: the last element.\<close>

definition pop :: "string list \<Rightarrow> string" where
  "pop a = last a"

text \<open>
  \<^verbatim>\<open>version.replace(/[\^~]/, '')\<close>, lines 76 and 93: the regular expression has no
  anchor and no global flag, so the first caret or tilde of the string is deleted,
  wherever it stands, and nothing else.
\<close>

fun cleanVersion :: "string \<Rightarrow> string" where
  "cleanVersion [] = []"
| "cleanVersion (c # cs) =
     (if c = CHR ''^'' \<or> c = CHR ''~'' then cs else c # cleanVersion cs)"

subsection \<open>The name of a package, from its path in the lock file\<close>

text \<open>Lines 33 to 37 of \<^verbatim>\<open>getAllInstalledPackages\<close>.\<close>

definition normalizedName :: "string \<Rightarrow> string" where
  "normalizedName packagePath =
     (let packageName = replace packagePath ''node_modules/'' ''''
      in if includes_str packageName ''/'' \<and> \<not> startsWith packageName ''@''
         then pop (split packageName CHR ''/'')
         else packageName)"

subsection \<open>Values and objects\<close>

text \<open>
  The values that reach the report: what \<^verbatim>\<open>response.json()\<close> can yield, \<^verbatim>\<open>undefined\<close>,
  and the members every plain object inherits from \<^verbatim>\<open>Object.prototype\<close>
  (\<open>JInherited k\<close> is the member named \<open>k\<close>). Numbers are carried as rationals:
  the scanner only copies and counts them.
\<close>

datatype jsv =
    JUndefined
  | JNull
  | JBool bool
  | JNum rat
  | JStr string
  | JArr "jsv list"
  | JObj "(string \<times> jsv) list"
  | JInherited string

text \<open>The truth value of a value, as \<^verbatim>\<open>?:\<close> and \<^verbatim>\<open>||\<close> take it.\<close>

fun truthy :: "jsv \<Rightarrow> bool" where
  "truthy JUndefined = False"
| "truthy JNull = False"
| "truthy (JBool b) = b"
| "truthy (JNum n) = (n \<noteq> 0)"
| "truthy (JStr s) = (s \<noteq> [])"
| "truthy (JArr xs) = True"
| "truthy (JObj ps) = True"
| "truthy (JInherited k) = True"

text \<open>
  A plain object (an object literal, a spread, a parsed JSON object) is the list of its
  own enumerable properties, in the order \<^verbatim>\<open>Object.entries\<close> yields them: the keys
  that are array indices first, in ascending numeric order, then the other keys in the
  order of their creation.
\<close>

type_synonym 'v object = "(string \<times> 'v) list"

text \<open>The own property names of \<^verbatim>\<open>Object.prototype\<close>.\<close>

definition object_prototype_keys :: "string list" where
  "object_prototype_keys =
     [''constructor'', ''__defineGetter__'', ''__defineSetter__'', ''hasOwnProperty'',
      ''__lookupGetter__'', ''__lookupSetter__'', ''isPrototypeOf'',
      ''propertyIsEnumerable'', ''toString'', ''valueOf'', ''__proto__'',
      ''toLocaleString'']"

text \<open>
  \<^verbatim>\<open>obj[k]\<close> read on a plain object with string values: the own property, else the
  inherited member, else \<^verbatim>\<open>undefined\<close>.
\<close>

definition js_get :: "string object \<Rightarrow> string \<Rightarrow> jsv" where
  "js_get obj k =
     (case map_of obj k of
        Some v \<Rightarrow> JStr v
      | None \<Rightarrow> if k \<in> set object_prototype_keys then JInherited k else JUndefined)"

text \<open>The same read on an object of a JSON document (an advisory).\<close>

definition js_prop :: "jsv object \<Rightarrow> string \<Rightarrow> jsv" where
  "js_prop obj k =
     (case map_of obj k of
        Some v \<Rightarrow> v
      | None \<Rightarrow> if k \<in> set object_prototype_keys then JInherited k else JUndefined)"

text \<open>
  An array index is a key that is the canonical decimal numeral (no sign, no leading
  zero) of a number from 0 to 4294967294.
\<close>

definition digit_value :: "char \<Rightarrow> nat option" where
  "digit_value c =
     map_of [(CHR ''0'', 0), (CHR ''1'', 1), (CHR ''2'', 2), (CHR ''3'', 3), (CHR ''4'', 4),
             (CHR ''5'', 5), (CHR ''6'', 6), (CHR ''7'', 7), (CHR ''8'', 8), (CHR ''9'', 9)] c"

fun decimal :: "nat \<Rightarrow> string \<Rightarrow> nat option" where
  "decimal n [] = Some n"
| "decimal n (c # cs) =
     (case digit_value c of None \<Rightarrow> None | Some d \<Rightarrow> decimal (10 * n + d) cs)"

definition array_index :: "string \<Rightarrow> nat option" where
  "array_index k =
     (case k of
        [] \<Rightarrow> None
      | c # cs \<Rightarrow>
          if c = CHR ''0'' \<and> cs \<noteq> [] then None
          else (case decimal 0 k of
                  None \<Rightarrow> None
                | Some n \<Rightarrow> if n \<le> 4294967294 then Some n else None))"

text \<open>A new property whose key is the array index \<open>n\<close> goes behind the smaller indices.\<close>

fun insert_index :: "nat \<Rightarrow> string \<times> 'v \<Rightarrow> 'v object \<Rightarrow> 'v object" where
  "insert_index n e [] = [e]"
| "insert_index n e (p # ps) =
     (case array_index (fst p) of
        None \<Rightarrow> e # p # ps
      | Some m \<Rightarrow> if m < n then p # insert_index n e ps else e # p # ps)"

text \<open>An existing property keeps its place and takes the new value.\<close>

fun update_own :: "string \<Rightarrow> 'v \<Rightarrow> 'v object \<Rightarrow> 'v object" where
  "update_own k v [] = []"
| "update_own k v (p # ps) =
     (if fst p = k then (k, v) # ps else p # update_own k v ps)"

text \<open>
  Defining an own property (what a spread and an object literal do): an existing key
  is updated, a new array index is put in its numeric place, any other new key goes to
  the end.
\<close>

definition define_own :: "string \<Rightarrow> 'v \<Rightarrow> 'v object \<Rightarrow> 'v object" where
  "define_own k v obj =
     (if map_of obj k \<noteq> None then update_own k v obj
      else (case array_index k of
              None \<Rightarrow> obj @ [(k, v)]
            | Some n \<Rightarrow> insert_index n (k, v) obj))"

text \<open>
  \<^verbatim>\<open>obj[k] = v\<close> with a string \<open>v\<close>, on an object that started as \<^verbatim>\<open>{}\<close>. The
  key \<^verbatim>\<open>__proto__\<close>, when not an own property, reaches the inherited setter, which
  ignores a string: nothing is stored.
\<close>

definition assign :: "string \<Rightarrow> string \<Rightarrow> string object \<Rightarrow> string object" where
  "assign k v obj =
     (if k = ''__proto__'' \<and> map_of obj k = None then obj else define_own k v obj)"

text \<open>\<^verbatim>\<open>{...obj, ...src}\<close>: spreading \<^verbatim>\<open>undefined\<close> adds nothing.\<close>

definition spread :: "'v object option \<Rightarrow> 'v object \<Rightarrow> 'v object" where
  "spread src obj =
     (case src of
        None \<Rightarrow> obj
      | Some ps \<Rightarrow> fold (\<lambda>(k, v) acc. define_own k v acc) ps obj)"

subsection \<open>The files\<close>

text \<open>
  \<^verbatim>\<open>JSON.parse(fs.readFileSync(path, 'utf8'))\<close> either yields the parsed file or
  throws. \<open>readManifest\<close> and \<open>readLock\<close> give the parsed file at a path, read as a
  manifest and as a lock file; \<open>None\<close> stands for every exception raised inside
  the \<^verbatim>\<open>try\<close> block that reads it (a missing file, invalid JSON, a document that
  is \<^verbatim>\<open>null\<close>, a lock entry that is \<^verbatim>\<open>null\<close>).
\<close>

record manifest =
  dependencies :: "string object option"
  devDependencies :: "string object option"

record package_info =
  version :: "string option"

record package_lock =
  packages :: "package_info object option"

record fs =
  readManifest :: "string \<Rightarrow> manifest option"
  readLock :: "string \<Rightarrow> package_lock option"

text \<open>
  The exceptions that leave a method of the scanner: the two errors it throws itself, and
  the type error of the language.
\<close>

datatype scan_error = FailedToReadPackageJson | FailedToAnalyzeDependencyTypes | TypeError

text \<open>\<^verbatim>\<open>getDependencies\<close>, lines 9 to 19.\<close>

definition getDependencies :: "fs \<Rightarrow> string \<Rightarrow> scan_error + string object" where
  "getDependencies files packageJsonPath =
     (case readManifest files packageJsonPath of
        None \<Rightarrow> Inl FailedToReadPackageJson
      | Some packageJson \<Rightarrow>
          Inr (spread (devDependencies packageJson) (spread (dependencies packageJson) [])))"

text \<open>
  The body of the loop of \<^verbatim>\<open>getAllInstalledPackages\<close>, lines 28 to 42:
  \<^verbatim>\<open>if (packageInfo.version)\<close> passes a version that is present and not empty.
\<close>

definition index_entry :: "string \<times> package_info \<Rightarrow> string object \<Rightarrow> string object" where
  "index_entry entry allPackages =
     (case entry of (packagePath, packageInfo) \<Rightarrow>
        if packagePath = '''' then allPackages
        else (case version packageInfo of
                None \<Rightarrow> allPackages
              | Some v \<Rightarrow>
                  if v \<noteq> '''' then assign (normalizedName packagePath) v allPackages
                  else allPackages))"

text \<open>
  \<^verbatim>\<open>getAllInstalledPackages\<close>, lines 22 to 50. The fallback of the \<^verbatim>\<open>catch\<close>
  calls \<^verbatim>\<open>this.getDependencies()\<close> without an argument: it reads
  \<^verbatim>\<open>./package.json\<close>, and its own exception is not caught.
\<close>

definition getAllInstalledPackages :: "fs \<Rightarrow> string \<Rightarrow> scan_error + string object" where
  "getAllInstalledPackages files packageLockPath =
     (case readLock files packageLockPath of
        None \<Rightarrow> getDependencies files ''./package.json''
      | Some packageLock \<Rightarrow>
          Inr (fold index_entry
                 (case packages packageLock of None \<Rightarrow> [] | Some table \<Rightarrow> table) []))"

text \<open>The loop of \<^verbatim>\<open>getDependencyTypes\<close>, lines 62 to 66.\<close>

definition classify :: "string object \<Rightarrow> string object \<Rightarrow> string object" where
  "classify directDeps allDeps =
     fold (\<lambda>(packageName, ver) dependencyTypes.
             assign packageName
               (if truthy (js_get directDeps packageName) then ''direct'' else ''transitive'')
               dependencyTypes)
          allDeps []"

text \<open>
  \<^verbatim>\<open>getDependencyTypes\<close>, lines 53 to 72. It calls
  \<^verbatim>\<open>this.getAllInstalledPackages()\<close> without an argument, so the lock file is
  \<^verbatim>\<open>./package-lock.json\<close>; every exception is rethrown as one error.
\<close>

definition getDependencyTypes :: "fs \<Rightarrow> string \<Rightarrow> scan_error + string object" where
  "getDependencyTypes files packageJsonPath =
     (case readManifest files packageJsonPath of
        None \<Rightarrow> Inl FailedToAnalyzeDependencyTypes
      | Some packageJson \<Rightarrow>
          (let directDeps =
                 spread (devDependencies packageJson) (spread (dependencies packageJson) [])
           in case getAllInstalledPackages files ''./package-lock.json'' of
                Inl e \<Rightarrow> Inl FailedToAnalyzeDependencyTypes
              | Inr allDeps \<Rightarrow> Inr (classify directDeps allDeps)))"

subsection \<open>The registry\<close>

text \<open>
  What \<^verbatim>\<open>await fetch(url)\<close> followed by \<^verbatim>\<open>await response.json()\<close> can do:
  \<open>Rejected\<close> when \<^verbatim>\<open>fetch\<close> throws, otherwise a response with its status and
  its parsed body, \<open>None\<close> when the body is not JSON (\<^verbatim>\<open>response.json()\<close> throws).
\<close>

datatype 'a response = Rejected | Response nat "'a option"

definition ok :: "nat \<Rightarrow> bool" where
  "ok status = (200 \<le> status \<and> status \<le> 299)"

text \<open>
  The two fields of a version document that the scanner reads, typed as the interface
  of the registry has them; a document that is \<^verbatim>\<open>null\<close> is the body \<open>None\<close>.
\<close>

datatype version_info =
  VersionInfo (info_publishedAt: "string option") (info_isDefault: "bool option")

text \<open>
  The two URLs are injective in the package name and the cleaned version (the base URL
  is fixed and \<^verbatim>\<open>encodeURIComponent\<close> is injective), so the registry is a function of
  these two. One scan asks for each name once, so a function covers every behaviour of
  the registry during a scan. The body of an advisories document is any JSON value.
\<close>

record client =
  fetchVersion :: "string \<Rightarrow> string \<Rightarrow> version_info response"
  fetchAdvisories :: "string \<Rightarrow> string \<Rightarrow> jsv response"

text \<open>\<^verbatim>\<open>getVersionInfo\<close>, lines 75 to 89; \<open>None\<close> is \<^verbatim>\<open>null\<close>.\<close>

definition getVersionInfo :: "client \<Rightarrow> string \<Rightarrow> string \<Rightarrow> version_info option" where
  "getVersionInfo registry packageName ver =
     (case fetchVersion registry packageName (cleanVersion ver) of
        Rejected \<Rightarrow> None
      | Response status body \<Rightarrow> if \<not> ok status then None else body)"

text \<open>
  \<^verbatim>\<open>v.k\<close> read on a value of a JSON document, for a name \<open>k\<close> that the prototypes of
  strings, numbers, booleans and arrays do not define (the scanner reads
  \<^verbatim>\<open>advisories\<close>, \<^verbatim>\<open>id\<close>, \<^verbatim>\<open>title\<close>, \<^verbatim>\<open>severity\<close>, \<^verbatim>\<open>cvss\<close> and
  \<^verbatim>\<open>summary\<close>): the read throws on \<^verbatim>\<open>null\<close> and \<^verbatim>\<open>undefined\<close>, and finds no own
  property on a value that is not an object.
\<close>

definition js_member :: "jsv \<Rightarrow> string \<Rightarrow> scan_error + jsv" where
  "js_member v k =
     (case v of
        JUndefined \<Rightarrow> Inl TypeError
      | JNull \<Rightarrow> Inl TypeError
      | JObj ps \<Rightarrow> Inr (js_prop ps k)
      | _ \<Rightarrow> Inr (js_prop [] k))"

text \<open>
  \<^verbatim>\<open>getVulnerabilities\<close>, lines 92 to 110: \<^verbatim>\<open>data.advisories || []\<close> returns
  whatever truthy value the document holds under \<^verbatim>\<open>advisories\<close>; an exception of
  the read is caught with the others.
\<close>

definition getVulnerabilities :: "client \<Rightarrow> string \<Rightarrow> string \<Rightarrow> jsv" where
  "getVulnerabilities registry packageName ver =
     (case fetchAdvisories registry packageName (cleanVersion ver) of
        Rejected \<Rightarrow> JArr []
      | Response status body \<Rightarrow>
          if \<not> ok status then (if status = 404 then JArr [] else JArr [])
          else (case body of
                  None \<Rightarrow> JArr []
                | Some data \<Rightarrow>
                    (case js_member data ''advisories'' of
                       Inl e \<Rightarrow> JArr []
                     | Inr a \<Rightarrow> if truthy a then a else JArr [])))"

subsection \<open>The scan\<close>

record scan_record =
  package :: string
  currentVersion :: string
  dependencyType :: jsv
  publishedAt :: string
  isDefault :: bool
  vulnerabilities :: "jsv list"
  vulnerabilityCount :: nat

text \<open>The object that lines 152 to 158 build from an advisory that is an object.\<close>

definition advisory_fields :: "jsv object \<Rightarrow> jsv" where
  "advisory_fields vuln =
     JObj [(''id'', js_prop vuln ''id''),
           (''title'', js_prop vuln ''title''),
           (''severity'', js_prop vuln ''severity''),
           (''cvss'', js_prop vuln ''cvss''),
           (''summary'', js_prop vuln ''summary'')]"

text \<open>
  The function mapped over the advisories, lines 152 to 158, on any element: the reads
  \<^verbatim>\<open>vuln.id\<close> and so on throw when the element is \<^verbatim>\<open>null\<close>.
\<close>

definition vulnerability_fields :: "jsv \<Rightarrow> scan_error + jsv" where
  "vulnerability_fields vuln =
     (case vuln of
        JUndefined \<Rightarrow> Inl TypeError
      | JNull \<Rightarrow> Inl TypeError
      | JObj ps \<Rightarrow> Inr (advisory_fields ps)
      | _ \<Rightarrow> Inr (advisory_fields []))"

fun map_vulnerabilities :: "jsv list \<Rightarrow> scan_error + jsv list" where
  "map_vulnerabilities [] = Inr []"
| "map_vulnerabilities (vuln # vulns) =
     (case vulnerability_fields vuln of
        Inl e \<Rightarrow> Inl e
      | Inr item \<Rightarrow>
          (case map_vulnerabilities vulns of
             Inl e \<Rightarrow> Inl e
           | Inr rest \<Rightarrow> Inr (item # rest)))"

text \<open>
  One turn of the loop of \<^verbatim>\<open>scanDependencies\<close>, lines 141 to 162. The two queries
  catch their own exceptions; \<^verbatim>\<open>vulnerabilities.map(...)\<close> stands outside any
  \<^verbatim>\<open>try\<close> and throws when the value is not an array (it has no function
  \<^verbatim>\<open>map\<close>) or when an element is \<^verbatim>\<open>null\<close>.
\<close>

definition scan_package ::
  "client \<Rightarrow> string object \<Rightarrow> string \<times> string \<Rightarrow> scan_error + scan_record" where
  "scan_package registry dependencyTypes entry =
     (case entry of (packageName, ver) \<Rightarrow>
        let versionInfo = getVersionInfo registry packageName ver;
            vulns = getVulnerabilities registry packageName ver
        in (case vulns of
              JArr elements \<Rightarrow>
                (case map_vulnerabilities elements of
                   Inl e \<Rightarrow> Inl e
                 | Inr mapped \<Rightarrow>
                     Inr \<lparr> package = packageName,
                           currentVersion = ver,
                           dependencyType =
                             (if truthy (js_get dependencyTypes packageName)
                              then js_get dependencyTypes packageName else JStr ''direct''),
                           publishedAt =
                             (case versionInfo of
                                None \<Rightarrow> ''Unknown''
                              | Some info \<Rightarrow>
                                  (case info_publishedAt info of
                                     None \<Rightarrow> ''Unknown''
                                   | Some p \<Rightarrow> if p \<noteq> '''' then p else ''Unknown'')),
                           isDefault =
                             (case versionInfo of
                                None \<Rightarrow> False
                              | Some info \<Rightarrow>
                                  (case info_isDefault info of None \<Rightarrow> False | Some b \<Rightarrow> b)),
                           vulnerabilities = mapped,
                           vulnerabilityCount = length elements \<rparr>)
            | _ \<Rightarrow> Inl TypeError))"

text \<open>
  The loop, lines 140 to 166: one record is pushed for every entry, in order; an
  exception ends the scan, and the records gathered so far are lost with it.
\<close>

fun scan_entries ::
  "client \<Rightarrow> string object \<Rightarrow> string object \<Rightarrow> scan_error + scan_record list" where
  "scan_entries registry dependencyTypes [] = Inr []"
| "scan_entries registry dependencyTypes (entry # entries) =
     (case scan_package registry dependencyTypes entry of
        Inl e \<Rightarrow> Inl e
      | Inr r \<Rightarrow>
          (case scan_entries registry dependencyTypes entries of
             Inl e \<Rightarrow> Inl e
           | Inr rs \<Rightarrow> Inr (r # rs)))"

text \<open>\<^verbatim>\<open>scanDependencies\<close>, lines 130 to 169. The pause between two packages is not modelled.\<close>

definition scanDependencies ::
  "fs \<Rightarrow> client \<Rightarrow> string \<Rightarrow> bool \<Rightarrow> scan_error + scan_record list" where
  "scanDependencies files registry packageJsonPath includeTransitive =
     (case (if includeTransitive then getAllInstalledPackages files ''./package-lock.json''
            else getDependencies files packageJsonPath) of
        Inl e \<Rightarrow> Inl e
      | Inr deps \<Rightarrow>
          (case (if includeTransitive then getDependencyTypes files packageJsonPath
                 else Inr []) of
             Inl e \<Rightarrow> Inl e
           | Inr dependencyTypes \<Rightarrow> scan_entries registry dependencyTypes deps))"

subsection \<open>The reports\<close>

record summary =
  totalPackages :: nat
  directDependencies :: nat
  transitiveDependencies :: nat
  vulnerablePackages :: nat
  vulnerableDirect :: nat
  vulnerableTransitive :: nat

record report =
  scanDate :: string
  summary :: summary
  results :: "scan_record list"

text \<open>
  The \<^verbatim>\<open>report\<close> object of \<^verbatim>\<open>saveResults\<close>, lines 228 to 243; \<open>now\<close> is
  \<^verbatim>\<open>new Date().toISOString()\<close>.
\<close>

definition saveResults_report :: "string \<Rightarrow> scan_record list \<Rightarrow> report" where
  "saveResults_report now rs =
     (let vulnerable = filter (\<lambda>r. vulnerabilityCount r > 0) rs;
          directPackages = filter (\<lambda>r. dependencyType r = JStr ''direct'') rs;
          transitivePackages = filter (\<lambda>r. dependencyType r = JStr ''transitive'') rs
      in \<lparr> scanDate = now,
           summary =
             \<lparr> totalPackages = length rs,
               directDependencies = length directPackages,
               transitiveDependencies = length transitivePackages,
               vulnerablePackages = length vulnerable,
               vulnerableDirect =
                 length (filter (\<lambda>r. dependencyType r = JStr ''direct'') vulnerable),
               vulnerableTransitive =
                 length (filter (\<lambda>r. dependencyType r = JStr ''transitive'') vulnerable) \<rparr>,
           results = rs \<rparr>)"

text \<open>
  \<^verbatim>\<open>array.sort(compare)\<close>. The language fixes the result only when the comparison
  is a consistent comparator for the values of the array: equal to itself on every
  value, symmetric in its zeros, and transitive in its zeros, in its negative and in its
  positive results. Then the result is the array in ascending order, elements that
  compare equal in their original order; insertion from the right, before the first
  element that is not smaller, computes it. For any other comparison the order is left
  to the implementation, and the model does not give one.
\<close>

datatype 'a sort_result = Sorted "'a list" | ImplementationDefined

definition consistent_comparator :: "('a \<Rightarrow> 'a \<Rightarrow> int) \<Rightarrow> 'a list \<Rightarrow> bool" where
  "consistent_comparator compare xs =
     ((\<forall>a\<in>set xs. compare a a = 0)
      \<and> (\<forall>a\<in>set xs. \<forall>b\<in>set xs. compare a b = 0 \<longrightarrow> compare b a = 0)
      \<and> (\<forall>a\<in>set xs. \<forall>b\<in>set xs. \<forall>c\<in>set xs.
            (compare a b = 0 \<and> compare b c = 0 \<longrightarrow> compare a c = 0)
            \<and> (compare a b < 0 \<and> compare b c < 0 \<longrightarrow> compare a c < 0)
            \<and> (compare a b > 0 \<and> compare b c > 0 \<longrightarrow> compare a c > 0)))"

fun insert_sorted :: "('a \<Rightarrow> 'a \<Rightarrow> int) \<Rightarrow> 'a \<Rightarrow> 'a list \<Rightarrow> 'a list" where
  "insert_sorted compare x [] = [x]"
| "insert_sorted compare x (y # ys) =
     (if compare x y \<le> 0 then x # y # ys else y # insert_sorted compare x ys)"

definition array_sort :: "('a \<Rightarrow> 'a \<Rightarrow> int) \<Rightarrow> 'a list \<Rightarrow> 'a sort_result" where
  "array_sort compare xs =
     (if consistent_comparator compare xs then Sorted (foldr (insert_sorted compare) xs [])
      else ImplementationDefined)"

text \<open>
  \<^verbatim>\<open>new Date(a.publishedAt) - new Date(b.publishedAt)\<close>, line 215. \<open>parseDate\<close> is
  the time value of \<^verbatim>\<open>new Date(s)\<close> in milliseconds, \<open>None\<close> for an invalid date;
  the difference is then \<^verbatim>\<open>NaN\<close>, which \<^verbatim>\<open>sort\<close> takes as 0.
\<close>

definition compareDates :: "(string \<Rightarrow> int option) \<Rightarrow> scan_record \<Rightarrow> scan_record \<Rightarrow> int" where
  "compareDates parseDate a b =
     (case parseDate (publishedAt a) of
        None \<Rightarrow> 0
      | Some ta \<Rightarrow> (case parseDate (publishedAt b) of None \<Rightarrow> 0 | Some tb \<Rightarrow> ta - tb))"

text \<open>\<^verbatim>\<open>sortedByDate\<close> of \<^verbatim>\<open>generateReport\<close>, lines 213 to 215.\<close>

definition sortedByDate ::
  "(string \<Rightarrow> int option) \<Rightarrow> scan_record list \<Rightarrow> scan_record sort_result" where
  "sortedByDate parseDate rs =
     array_sort (compareDates parseDate) (filter (\<lambda>r. publishedAt r \<noteq> ''Unknown'') rs)"

text \<open>
  The records that \<^verbatim>\<open>generateReport\<close> lists under OLDEST DEPENDENCIES, lines 217 to
  223: \<^verbatim>\<open>sortedByDate.slice(0, 5)\<close>; nothing is printed when there is none.
\<close>

definition oldestDependencies ::
  "(string \<Rightarrow> int option) \<Rightarrow> scan_record list \<Rightarrow> scan_record sort_result" where
  "oldestDependencies parseDate rs =
     (case sortedByDate parseDate rs of
        Sorted ys \<Rightarrow> Sorted (take 5 ys)
      | ImplementationDefined \<Rightarrow> ImplementationDefined)"

subsection \<open>The saved document\<close>

text \<open>The report and its records as the objects the program holds.\<close>

definition record_value :: "scan_record \<Rightarrow> jsv" where
  "record_value r =
     JObj [(''package'', JStr (package r)),
           (''currentVersion'', JStr (currentVersion r)),
           (''dependencyType'', dependencyType r),
           (''publishedAt'', JStr (publishedAt r)),
           (''isDefault'', JBool (isDefault r)),
           (''vulnerabilities'', JArr (vulnerabilities r)),
           (''vulnerabilityCount'', JNum (of_nat (vulnerabilityCount r)))]"

definition report_value :: "report \<Rightarrow> jsv" where
  "report_value rep =
     JObj [(''scanDate'', JStr (scanDate rep)),
           (''summary'',
            JObj [(''totalPackages'', JNum (of_nat (totalPackages (summary rep)))),
                  (''directDependencies'', JNum (of_nat (directDependencies (summary rep)))),
                  (''transitiveDependencies'',
                   JNum (of_nat (transitiveDependencies (summary rep)))),
                  (''vulnerablePackages'', JNum (of_nat (vulnerablePackages (summary rep)))),
                  (''vulnerableDirect'', JNum (of_nat (vulnerableDirect (summary rep)))),
                  (''vulnerableTransitive'',
                   JNum (of_nat (vulnerableTransitive (summary rep))))]),
           (''results'', JArr (map record_value (results rep)))]"

text \<open>A JSON document, as a tree.\<close>

datatype json =
    Jnull
  | Jbool bool
  | Jnumber rat
  | Jstring string
  | Jarray "json list"
  | Jobject "(string \<times> json) list"

text \<open>
  \<^verbatim>\<open>JSON.stringify\<close>, seen on trees: a property whose value is \<^verbatim>\<open>undefined\<close> or
  a function is left out, such an array element becomes \<^verbatim>\<open>null\<close>, and
  \<^verbatim>\<open>Object.prototype\<close> itself (the inherited \<^verbatim>\<open>__proto__\<close>) has no enumerable
  property. \<open>None\<close> is the result \<^verbatim>\<open>undefined\<close>. The layout of the text, its escapes
  and the digits of its numbers are the library's and are not modelled.
\<close>

fun stringify :: "jsv \<Rightarrow> json option"
  and stringify_elements :: "jsv list \<Rightarrow> json list"
  and stringify_properties :: "jsv object \<Rightarrow> (string \<times> json) list" where
  "stringify JUndefined = None"
| "stringify JNull = Some Jnull"
| "stringify (JBool b) = Some (Jbool b)"
| "stringify (JNum n) = Some (Jnumber n)"
| "stringify (JStr s) = Some (Jstring s)"
| "stringify (JArr xs) = Some (Jarray (stringify_elements xs))"
| "stringify (JObj ps) = Some (Jobject (stringify_properties ps))"
| "stringify (JInherited k) = (if k = ''__proto__'' then Some (Jobject []) else None)"
| "stringify_elements [] = []"
| "stringify_elements (x # xs) =
     (case stringify x of None \<Rightarrow> Jnull | Some j \<Rightarrow> j) # stringify_elements xs"
| "stringify_properties [] = []"
| "stringify_properties (p # ps) =
     (case stringify (snd p) of
        None \<Rightarrow> stringify_properties ps
      | Some j \<Rightarrow> (fst p, j) # stringify_properties ps)"

text \<open>\<^verbatim>\<open>JSON.parse\<close>, seen on trees.\<close>

fun parse :: "json \<Rightarrow> jsv"
  and parse_elements :: "json list \<Rightarrow> jsv list"
  and parse_properties :: "(string \<times> json) list \<Rightarrow> jsv object" where
  "parse Jnull = JNull"
| "parse (Jbool b) = JBool b"
| "parse (Jnumber n) = JNum n"
| "parse (Jstring s) = JStr s"
| "parse (Jarray xs) = JArr (parse_elements xs)"
| "parse (Jobject ps) = JObj (parse_properties ps)"
| "parse_elements [] = []"
| "parse_elements (x # xs) = parse x # parse_elements xs"
| "parse_properties [] = []"
| "parse_properties (p # ps) = (fst p, parse (snd p)) # parse_properties ps"

text \<open>
  \<^verbatim>\<open>saveResults\<close>, lines 227 to 247: the document handed to \<^verbatim>\<open>fs.writeFileSync\<close>.
\<close>

definition saveResults :: "string \<Rightarrow> scan_record list \<Rightarrow> json option" where
  "saveResults now rs = stringify (report_value (saveResults_report now rs))"

text \<open>
  Modelled from the spec: the repository has no reader of the saved document. Reading
  it again is \<^verbatim>\<open>JSON.parse\<close> of what \<^verbatim>\<open>saveResults\<close> wrote.
\<close>

definition reread :: "string \<Rightarrow> scan_record list \<Rightarrow> jsv option" where
  "reread now rs = map_option parse (saveResults now rs)"

section \<open>Notions used in the statements\<close>

text \<open>
  The specification's version cleaning, in its own words: the leading semver range
  markers (caret and tilde) are stripped, the rest is unchanged.
\<close>

definition spec_stripLeadingMarkers :: "string \<Rightarrow> string" where
  "spec_stripLeadingMarkers v = dropWhile (\<lambda>c. c = CHR ''^'' \<or> c = CHR ''~'') v"

text \<open>
  The versions that the entries of a lock table carry for one canonical name, in table
  order: the root entry and the entries without a version (or with an empty one) carry
  none.
\<close>

definition versions_of :: "string \<Rightarrow> package_info object \<Rightarrow> string list" where
  "versions_of name table =
     concat (map (\<lambda>(packagePath, packageInfo).
                    if packagePath \<noteq> '''' \<and> normalizedName packagePath = name
                    then (case version packageInfo of
                            None \<Rightarrow> []
                          | Some v \<Rightarrow> if v \<noteq> '''' then [v] else [])
                    else []) table)"


text \<open>
  The advisories that the loop of the scan can map: an array without \<^verbatim>\<open>null\<close>
  (and without \<^verbatim>\<open>undefined\<close>, which no document holds).
\<close>

definition mappable :: "jsv \<Rightarrow> bool" where
  "mappable v =
     (case v of
        JArr xs \<Rightarrow> list_all (\<lambda>x. x \<noteq> JNull \<and> x \<noteq> JUndefined) xs
      | _ \<Rightarrow> False)"

text \<open>The publication timestamp of a record whose date parses.\<close>

definition timestamp :: "(string \<Rightarrow> int option) \<Rightarrow> scan_record \<Rightarrow> int" where
  "timestamp parseDate r = (case parseDate (publishedAt r) of None \<Rightarrow> 0 | Some t \<Rightarrow> t)"

text \<open>
  The values a JSON document can hold: every value but \<^verbatim>\<open>undefined\<close> and the
  inherited members, at any depth.
\<close>

fun json_value :: "jsv \<Rightarrow> bool"
  and json_elements :: "jsv list \<Rightarrow> bool"
  and json_properties :: "jsv object \<Rightarrow> bool" where
  "json_value JUndefined = False"
| "json_value JNull = True"
| "json_value (JBool b) = True"
| "json_value (JNum n) = True"
| "json_value (JStr s) = True"
| "json_value (JArr xs) = json_elements xs"
| "json_value (JObj ps) = json_properties ps"
| "json_value (JInherited k) = False"
| "json_elements [] = True"
| "json_elements (x # xs) = (json_value x \<and> json_elements xs)"
| "json_properties [] = True"
| "json_properties (p # ps) = (json_value (snd p) \<and> json_properties ps)"

text \<open>
  An advisory as the scan builds it from a JSON document: an object whose properties
  are JSON values or \<^verbatim>\<open>undefined\<close>.
\<close>

definition advisory_like :: "jsv \<Rightarrow> bool" where
  "advisory_like a =
     (case a of
        JObj ps \<Rightarrow> list_all (\<lambda>p. snd p = JUndefined \<or> json_value (snd p)) ps
      | _ \<Rightarrow> False)"

text \<open>An object without its properties whose value is \<^verbatim>\<open>undefined\<close>.\<close>

definition defined_fields :: "jsv \<Rightarrow> jsv" where
  "defined_fields a =
     (case a of JObj ps \<Rightarrow> JObj (filter (\<lambda>p. snd p \<noteq> JUndefined) ps) | _ \<Rightarrow> a)"

definition without_undefined :: "scan_record \<Rightarrow> scan_record" where
  "without_undefined r = r\<lparr> vulnerabilities := map defined_fields (vulnerabilities r) \<rparr>"

section \<open>Concrete inputs\<close>

text \<open>Two records as a scan yields them, one of each classification.\<close>

definition example_records :: "scan_record list" where
  "example_records =
     [\<lparr> package = ''axios'', currentVersion = ''1.12.2'', dependencyType = JStr ''direct'',
        publishedAt = ''2025-09-14T12:59:27Z'', isDefault = True,
        vulnerabilities =
          [JObj [(''id'', JStr ''GHSA-1''), (''title'', JStr ''t''),
                 (''severity'', JStr ''HIGH''), (''cvss'', JNum 7), (''summary'', JStr ''s'')]],
        vulnerabilityCount = 1 \<rparr>,
      \<lparr> package = ''follow-redirects'', currentVersion = ''1.15.0'',
        dependencyType = JStr ''transitive'', publishedAt = ''Unknown'', isDefault = False,
        vulnerabilities = [], vulnerabilityCount = 0 \<rparr>]"

text \<open>A registry that never answers.\<close>

definition offline :: client where
  "offline = \<lparr> fetchVersion = (\<lambda>name v. Rejected), fetchAdvisories = (\<lambda>name v. Rejected) \<rparr>"

text \<open>
  The manifest declares \<^verbatim>\<open>foo\<close> with the empty range (npm reads it as any version);
  the lock file has it installed.
\<close>

definition files_empty_range :: fs where
  "files_empty_range =
     \<lparr> readManifest = (\<lambda>path. if path = ''./package.json''
          then Some \<lparr> dependencies = Some [(''foo'', '''')], devDependencies = None \<rparr>
          else None),
       readLock = (\<lambda>path. if path = ''./package-lock.json''
          then Some \<lparr> packages = Some [('''', \<lparr> version = Some ''1.0.0'' \<rparr>),
                                     (''node_modules/foo'', \<lparr> version = Some ''2.3.4'' \<rparr>)] \<rparr>
          else None) \<rparr>"

text \<open>The same manifest, and no lock file.\<close>

definition files_no_lock :: fs where
  "files_no_lock =
     \<lparr> readManifest = (\<lambda>path. if path = ''./package.json''
          then Some \<lparr> dependencies = Some [(''foo'', '''')], devDependencies = None \<rparr>
          else None),
       readLock = (\<lambda>path. None) \<rparr>"

text \<open>A manifest kept outside the working directory, which holds no manifest and no lock file.\<close>

definition files_elsewhere :: fs where
  "files_elsewhere =
     \<lparr> readManifest = (\<lambda>path. if path = ''./app/package.json''
          then Some \<lparr> dependencies = Some [(''axios'', ''^1.12.2'')], devDependencies = None \<rparr>
          else None),
       readLock = (\<lambda>path. None) \<rparr>"

text \<open>A manifest that declares the package \<^verbatim>\<open>constructor\<close>.\<close>

definition files_constructor :: fs where
  "files_constructor =
     \<lparr> readManifest = (\<lambda>path. if path = ''./package.json''
          then Some \<lparr> dependencies = Some [(''constructor'', ''^1.0.0'')],
                      devDependencies = None \<rparr>
          else None),
       readLock = (\<lambda>path. None) \<rparr>"

text \<open>A registry that knows one version string only.\<close>

definition probe :: client where
  "probe =
     \<lparr> fetchVersion = (\<lambda>name v. if v = ''1.x || 2.0.0''
          then Response 200 (Some (VersionInfo (Some ''2020-06-15T00:00:00Z'') None))
          else Rejected),
       fetchAdvisories = (\<lambda>name v. if v = ''1.x || 2.0.0''
          then Response 200 (Some (JObj [(''advisories'', JArr [JObj [(''id'', JStr ''GHSA-1'')]])]))
          else Rejected) \<rparr>"

text \<open>
  A lock file of a workspace: the package \<^verbatim>\<open>foo\<close> lives in \<^verbatim>\<open>apps/foo\<close> and is
  linked into \<^verbatim>\<open>node_modules\<close>; the link entry has no version.
\<close>

definition workspace_table :: "package_info object" where
  "workspace_table =
     [('''', \<lparr> version = Some ''1.0.0'' \<rparr>),
      (''apps/foo'', \<lparr> version = Some ''1.0.0'' \<rparr>),
      (''node_modules/foo'', \<lparr> version = None \<rparr>)]"

definition files_workspace :: fs where
  "files_workspace =
     \<lparr> readManifest = (\<lambda>path. None),
       readLock = (\<lambda>path. if path = ''./package-lock.json''
          then Some \<lparr> packages = Some workspace_table \<rparr> else None) \<rparr>"

text \<open>A lock file with two versions of \<^verbatim>\<open>ms\<close>, one nested.\<close>

definition nested_table :: "package_info object" where
  "nested_table =
     [('''', \<lparr> version = Some ''1.0.0'' \<rparr>),
      (''node_modules/debug'', \<lparr> version = Some ''4.3.4'' \<rparr>),
      (''node_modules/debug/node_modules/ms'', \<lparr> version = Some ''2.1.2'' \<rparr>),
      (''node_modules/ms'', \<lparr> version = Some ''2.0.0'' \<rparr>)]"

definition files_nested :: fs where
  "files_nested =
     \<lparr> readManifest = (\<lambda>path. None),
       readLock = (\<lambda>path. if path = ''./package-lock.json''
          then Some \<lparr> packages = Some nested_table \<rparr> else None) \<rparr>"

text \<open>
  The scenario of the specification: the manifest declares \<^verbatim>\<open>axios\<close>, the lock
  file has \<^verbatim>\<open>axios\<close> and \<^verbatim>\<open>follow-redirects\<close>; the registry answers for
  \<^verbatim>\<open>axios\<close> (a publication date, no advisory) and fails for every other name.
\<close>

definition scenario_files :: fs where
  "scenario_files =
     \<lparr> readManifest = (\<lambda>path. if path = ''./package.json''
          then Some \<lparr> dependencies = Some [(''axios'', ''^1.12.2'')], devDependencies = None \<rparr>
          else None),
       readLock = (\<lambda>path. if path = ''./package-lock.json''
          then Some \<lparr> packages =
                 Some [('''', \<lparr> version = Some ''1.0.0'' \<rparr>),
                       (''node_modules/axios'', \<lparr> version = Some ''1.12.2'' \<rparr>),
                       (''node_modules/follow-redirects'', \<lparr> version = Some ''1.15.0'' \<rparr>)] \<rparr>
          else None) \<rparr>"


text \<open>Dates and their time values, for three days.\<close>

definition example_parseDate :: "string \<Rightarrow> int option" where
  "example_parseDate s =
     (if s = ''2025-09-14T12:59:27Z'' then Some 1757854767000
      else if s = ''2020-06-15T00:00:00Z'' then Some 1592179200000
      else if s = ''2015-03-01T10:00:00Z'' then Some 1425204000000
      else None)"

definition dated :: "string \<Rightarrow> string \<Rightarrow> scan_record" where
  "dated name date =
     \<lparr> package = name, currentVersion = ''1.0.0'', dependencyType = JStr ''transitive'',
       publishedAt = date, isDefault = False, vulnerabilities = [], vulnerabilityCount = 0 \<rparr>"

definition example_dated_records :: "scan_record list" where
  "example_dated_records =
     [dated ''a'' ''2020-06-15T00:00:00Z'', dated ''b'' ''Unknown'',
      dated ''c'' ''2015-03-01T10:00:00Z'', dated ''d'' ''2025-09-14T12:59:27Z'',
      dated ''e'' ''2020-06-15T00:00:00Z'', dated ''f'' ''2015-03-01T10:00:00Z'',
      dated ''g'' ''2020-06-15T00:00:00Z'', dated ''h'' ''2025-09-14T12:59:27Z'']"

text \<open>A registry whose advisory for \<^verbatim>\<open>axios\<close> has an id and a title and nothing else.\<close>

definition registry_short_advisory :: client where
  "registry_short_advisory =
     \<lparr> fetchVersion = (\<lambda>name v.
          Response 200 (Some (VersionInfo (Some ''2025-09-14T12:59:27Z'') (Some True)))),
       fetchAdvisories = (\<lambda>name v.
          Response 200 (Some (JObj
            [(''advisories'',
              JArr [JObj [(''id'', JStr ''GHSA-1''), (''title'', JStr ''t'')]])]))) \<rparr>"

text \<open>
  The one record that a scan of the direct dependencies alone builds with this registry
  for the manifest that declares \<^verbatim>\<open>constructor\<close>.
\<close>

definition constructor_records :: "scan_record list" where
  "constructor_records =
     [\<lparr> package = ''constructor'', currentVersion = ''^1.0.0'',
        dependencyType = JInherited ''constructor'',
        publishedAt = ''2025-09-14T12:59:27Z'', isDefault = True,
        vulnerabilities =
          [JObj [(''id'', JStr ''GHSA-1''), (''title'', JStr ''t''),
                 (''severity'', JUndefined), (''cvss'', JUndefined),
                 (''summary'', JUndefined)]],
        vulnerabilityCount = 1 \<rparr>]"

text \<open>The one record that a scan with this registry builds for \<^verbatim>\<open>axios\<close>.\<close>

definition short_advisory_records :: "scan_record list" where
  "short_advisory_records =
     [\<lparr> package = ''axios'', currentVersion = ''1.12.2'', dependencyType = JStr ''direct'',
        publishedAt = ''2025-09-14T12:59:27Z'', isDefault = True,
        vulnerabilities =
          [JObj [(''id'', JStr ''GHSA-1''), (''title'', JStr ''t''),
                 (''severity'', JUndefined), (''cvss'', JUndefined),
                 (''summary'', JUndefined)]],
        vulnerabilityCount = 1 \<rparr>]"



text \<open>
  The record that a scan of the direct dependencies builds for \<^verbatim>\<open>axios\<close>
  when the registry gives the date
  \<^verbatim>\<open>pending\<close>, and three records of which the second has that date.
\<close>

definition pending_records :: "scan_record list" where
  "pending_records =
     [\<lparr> package = ''axios'', currentVersion = ''^1.12.2'', dependencyType = JStr ''direct'',
        publishedAt = ''pending'', isDefault = False, vulnerabilities = [],
        vulnerabilityCount = 0 \<rparr>]"

definition mixed_dated_records :: "scan_record list" where
  "mixed_dated_records =
     [dated ''a'' ''2020-06-15T00:00:00Z'', dated ''b'' ''pending'',
      dated ''c'' ''2015-03-01T10:00:00Z'']"

text \<open>A registry whose version documents carry a date that is not one.\<close>

definition registry_pending_date :: client where
  "registry_pending_date =
     \<lparr> fetchVersion = (\<lambda>name v. Response 200 (Some (VersionInfo (Some ''pending'') None))),
       fetchAdvisories = (\<lambda>name v. Rejected) \<rparr>"

section \<open>The summary of the saved report\<close>

lemma length_filter_two_classes:
  assumes "\<forall>x\<in>set xs. P x \<or> Q x" and "\<And>x. P x \<Longrightarrow> \<not> Q x"
  shows "length (filter P xs) + length (filter Q xs) = length xs"
  using assms by (induction xs) auto

lemma summary_fields:
  "totalPackages (summary (saveResults_report now rs)) = length rs"
  "directDependencies (summary (saveResults_report now rs)) =
     length (filter (\<lambda>r. dependencyType r = JStr ''direct'') rs)"
  "transitiveDependencies (summary (saveResults_report now rs)) =
     length (filter (\<lambda>r. dependencyType r = JStr ''transitive'') rs)"
  "vulnerablePackages (summary (saveResults_report now rs)) =
     length (filter (\<lambda>r. vulnerabilityCount r > 0) rs)"
  "vulnerableDirect (summary (saveResults_report now rs)) =
     length (filter (\<lambda>r. dependencyType r = JStr ''direct'')
               (filter (\<lambda>r. vulnerabilityCount r > 0) rs))"
  "vulnerableTransitive (summary (saveResults_report now rs)) =
     length (filter (\<lambda>r. dependencyType r = JStr ''transitive'')
               (filter (\<lambda>r. vulnerabilityCount r > 0) rs))"
  by (simp_all add: saveResults_report_def Let_def)

text \<open>
  The two classes of the summary are the records whose type is the word
  \<^verbatim>\<open>direct\<close> and those whose type is the word \<^verbatim>\<open>transitive\<close>. For a sequence
  in which every record has one of the two words, the counts are a partition; and in any
  sequence a record is counted vulnerable exactly when its \<^verbatim>\<open>vulnerabilityCount\<close> is
  greater than 0.
\<close>

lemma summary_partition_of_classified:
  assumes "\<forall>r\<in>set rs. dependencyType r = JStr ''direct'' \<or> dependencyType r = JStr ''transitive''"
  shows "directDependencies (summary (saveResults_report now rs))
           + transitiveDependencies (summary (saveResults_report now rs))
         = totalPackages (summary (saveResults_report now rs))
       \<and> vulnerableDirect (summary (saveResults_report now rs))
           + vulnerableTransitive (summary (saveResults_report now rs))
         = vulnerablePackages (summary (saveResults_report now rs))"
proof -
  let ?D = "\<lambda>r. dependencyType r = JStr ''direct''"
  let ?T = "\<lambda>r. dependencyType r = JStr ''transitive''"
  let ?V = "filter (\<lambda>r. vulnerabilityCount r > 0) rs"
  have excl: "\<And>r. ?D r \<Longrightarrow> \<not> ?T r" by simp
  have all: "length (filter ?D rs) + length (filter ?T rs) = length rs"
    using assms excl by (rule length_filter_two_classes)
  have "\<forall>r\<in>set ?V. ?D r \<or> ?T r" using assms by simp
  then have vul: "length (filter ?D ?V) + length (filter ?T ?V) = length ?V"
    using excl by (rule length_filter_two_classes)
  show ?thesis
    unfolding summary_fields using all vul by simp
qed

lemma summary_total_and_vulnerable:
  "totalPackages (summary (saveResults_report now rs)) = length rs"
  "vulnerablePackages (summary (saveResults_report now rs))
     = card {i. i < length rs \<and> vulnerabilityCount (rs ! i) > 0}"
  unfolding summary_fields by (simp_all add: length_filter_conv_card)

lemma summary_classes_bounded:
  "directDependencies (summary (saveResults_report now rs))
     + transitiveDependencies (summary (saveResults_report now rs))
   \<le> totalPackages (summary (saveResults_report now rs))"
proof -
  have "length (filter (\<lambda>r. dependencyType r = JStr ''direct'') rs)
          + length (filter (\<lambda>r. dependencyType r = JStr ''transitive'') rs) \<le> length rs"
    by (induction rs) auto
  then show ?thesis
    unfolding summary_fields .
qed

text \<open>
  Claim C7. For every sequence of scan records the summary of \<^verbatim>\<open>saveResults\<close> is
  said to be a partition: the direct and the transitive count add up to the total, and
  the vulnerable direct and the vulnerable transitive count add up to the vulnerable
  count. The scan itself builds a record that is in neither class: for the manifest that
  declares \<^verbatim>\<open>constructor\<close>, scanned without the transitive dependencies, with a
  registry that reports one advisory, the type of the one record is the function that
  the empty object inherits. The summary of that scan has the total 1 with the direct
  and the transitive count 0, and the vulnerable count 1 with the vulnerable direct and
  the vulnerable transitive count 0.
\<close>

theorem summary_of_scan_not_partition:
  "scanDependencies files_constructor registry_short_advisory ''./package.json'' False
     = Inr constructor_records
   \<and> map dependencyType constructor_records = [JInherited ''constructor'']
   \<and> map vulnerabilityCount constructor_records = [1]
   \<and> summary (saveResults_report ''2025-10-01T00:00:00.000Z'' constructor_records)
     = \<lparr> totalPackages = 1, directDependencies = 0, transitiveDependencies = 0,
         vulnerablePackages = 1, vulnerableDirect = 0, vulnerableTransitive = 0 \<rparr>
   \<and> directDependencies (summary (saveResults_report ''2025-10-01T00:00:00.000Z''
                                    constructor_records))
       + transitiveDependencies (summary (saveResults_report ''2025-10-01T00:00:00.000Z''
                                            constructor_records))
     \<noteq> totalPackages (summary (saveResults_report ''2025-10-01T00:00:00.000Z''
                                  constructor_records))
   \<and> vulnerableDirect (summary (saveResults_report ''2025-10-01T00:00:00.000Z''
                                  constructor_records))
       + vulnerableTransitive (summary (saveResults_report ''2025-10-01T00:00:00.000Z''
                                          constructor_records))
     \<noteq> vulnerablePackages (summary (saveResults_report ''2025-10-01T00:00:00.000Z''
                                       constructor_records))"
proof -
  have scan: "scanDependencies files_constructor registry_short_advisory ''./package.json'' False
                = Inr constructor_records"
    by (simp add: scanDependencies_def getDependencies_def files_constructor_def spread_def
          define_own_def array_index_def digit_value_def js_get_def js_prop_def js_member_def
          scan_package_def Let_def object_prototype_keys_def getVulnerabilities_def
          getVersionInfo_def registry_short_advisory_def constructor_records_def ok_def
          vulnerability_fields_def advisory_fields_def)
  have fields: "summary (saveResults_report ''2025-10-01T00:00:00.000Z'' constructor_records)
     = \<lparr> totalPackages = 1, directDependencies = 0, transitiveDependencies = 0,
         vulnerablePackages = 1, vulnerableDirect = 0, vulnerableTransitive = 0 \<rparr>"
    by (simp add: saveResults_report_def Let_def constructor_records_def)
  show ?thesis
    unfolding fields by (simp add: scan) (simp add: constructor_records_def)
qed

section \<open>Names and versions\<close>

lemma includes_char: "includes_str s [c] \<longleftrightarrow> c \<in> set s"
  by (induction s) (auto simp: startsWith_def)

lemma replace_at_front:
  assumes "pat \<noteq> []"
  shows "replace (pat @ s) pat rep = rep @ s"
proof -
  obtain c cs where cs: "pat @ s = c # cs"
    using assms by (cases "pat @ s") auto
  have sw: "startsWith (c # cs) pat"
    unfolding cs [symmetric] by (simp add: startsWith_def)
  have dr: "drop (length pat) (c # cs) = s"
    unfolding cs [symmetric] by simp
  show ?thesis
    unfolding cs using sw dr by simp
qed

text \<open>
  A package installed at the top level keeps its name: a scoped name whole, a plain
  name as it is.
\<close>

lemma normalizedName_top_level_scoped:
  "normalizedName (''node_modules/'' @ CHR ''@'' # rest) = CHR ''@'' # rest"
proof -
  have "replace (''node_modules/'' @ CHR ''@'' # rest) ''node_modules/'' '''' = '''' @ CHR ''@'' # rest"
    by (rule replace_at_front) simp
  then show ?thesis
    by (simp add: normalizedName_def startsWith_def)
qed

lemma normalizedName_top_level_plain:
  assumes "CHR ''/'' \<notin> set name"
  shows "normalizedName (''node_modules/'' @ name) = name"
proof -
  have "replace (''node_modules/'' @ name) ''node_modules/'' '''' = '''' @ name"
    by (rule replace_at_front) simp
  with assms show ?thesis
    by (simp add: normalizedName_def includes_char)
qed

text \<open>
  Claim C4. For every installation path of the lock file, the root excluded, the name
  is the path without its \<^verbatim>\<open>node_modules/\<close> prefix, cut to the last segment when it
  has a separator and does not begin with \<^verbatim>\<open>@\<close>, and kept whole when it begins with
  \<^verbatim>\<open>@\<close>; in particular every scoped package, also one nested under another package,
  keeps its namespace. The code loses the namespace of a nested scoped package: the
  remainder begins with the outer package, not with \<^verbatim>\<open>@\<close>, and only the last segment
  is kept.
\<close>

theorem nested_scoped_name_loses_namespace:
  "normalizedName ''node_modules/foo/node_modules/@scope/bar'' = ''bar''
   \<and> normalizedName ''node_modules/@scope/bar'' = ''@scope/bar''"
  by (simp add: normalizedName_def startsWith_def pop_def)

text \<open>
  A version without caret and tilde (every exact version of a lock file) is sent as it
  is, and one marker in front of such a version is removed.
\<close>

lemma cleanVersion_no_marker:
  "CHR ''^'' \<notin> set v \<Longrightarrow> CHR ''~'' \<notin> set v \<Longrightarrow> cleanVersion v = v"
  by (induction v) auto

lemma cleanVersion_one_marker_in_front:
  assumes "c = CHR ''^'' \<or> c = CHR ''~''" and "CHR ''^'' \<notin> set v" and "CHR ''~'' \<notin> set v"
  shows "cleanVersion (c # v) = v" and "spec_stripLeadingMarkers (c # v) = v"
proof -
  show "cleanVersion (c # v) = v" using assms(1) by auto
  have "dropWhile (\<lambda>c. c = CHR ''^'' \<or> c = CHR ''~'') v = v"
    using assms(2,3) by (cases v) auto
  then show "spec_stripLeadingMarkers (c # v) = v"
    using assms(1) by (auto simp: spec_stripLeadingMarkers_def)
qed

text \<open>
  Claim C6. For every package that \<^verbatim>\<open>scanDependencies\<close> processes, the version sent
  to both queries is the installed version without its leading caret and tilde markers
  and is otherwise unchanged. The code deletes the first caret or tilde wherever it
  stands: of the range \<^verbatim>\<open>1.x || ^2.0.0\<close>, which has no leading marker, both queries
  receive \<^verbatim>\<open>1.x || 2.0.0\<close> (the registry \<open>probe\<close> answers for that string only).
\<close>

theorem inner_marker_removed:
  "cleanVersion ''1.x || ^2.0.0'' = ''1.x || 2.0.0''
   \<and> spec_stripLeadingMarkers ''1.x || ^2.0.0'' = ''1.x || ^2.0.0''
   \<and> getVersionInfo probe ''foo'' ''1.x || ^2.0.0''
       = Some (VersionInfo (Some ''2020-06-15T00:00:00Z'') None)
   \<and> getVulnerabilities probe ''foo'' ''1.x || ^2.0.0''
       = JArr [JObj [(''id'', JStr ''GHSA-1'')]]"
  by (simp add: spec_stripLeadingMarkers_def getVersionInfo_def getVulnerabilities_def
        probe_def ok_def js_member_def js_prop_def)

section \<open>The index of the lock file\<close>

lemma map_of_update_own:
  "map_of obj k \<noteq> None \<Longrightarrow> map_of (update_own k v obj) = (map_of obj)(k \<mapsto> v)"
  by (induction obj) (auto simp: fun_eq_iff)

lemma map_of_insert_index:
  "map_of obj k = None \<Longrightarrow> map_of (insert_index n (k, v) obj) = (map_of obj)(k \<mapsto> v)"
  by (induction obj) (auto simp: fun_eq_iff split: option.splits if_splits)

lemma map_of_define_own: "map_of (define_own k v obj) = (map_of obj)(k \<mapsto> v)"
proof (cases "map_of obj k")
  case None
  then have "map_of (obj @ [(k, v)]) = (map_of obj)(k \<mapsto> v)"
    by (auto simp: fun_eq_iff map_add_def split: option.splits)
  with None show ?thesis
    by (simp add: define_own_def map_of_insert_index split: option.splits)
next
  case (Some w)
  then show ?thesis
    by (simp add: define_own_def map_of_update_own)
qed

lemma keys_update_own: "map fst (update_own k v obj) = map fst obj"
  by (induction obj) auto

lemma keys_insert_index:
  "set (map fst (insert_index n e obj)) = insert (fst e) (set (map fst obj))"
  "distinct (map fst obj) \<Longrightarrow> fst e \<notin> set (map fst obj) \<Longrightarrow>
     distinct (map fst (insert_index n e obj))"
  by (induction obj) (auto split: option.splits)

lemma distinct_define_own:
  assumes "distinct (map fst obj)"
  shows "distinct (map fst (define_own k v obj))"
proof (cases "map_of obj k")
  case None
  then have "k \<notin> set (map fst obj)"
    by (simp add: map_of_eq_None_iff)
  with assms None show ?thesis
    by (simp add: define_own_def keys_insert_index split: option.splits)
next
  case (Some w)
  with assms show ?thesis
    by (simp add: define_own_def keys_update_own)
qed

lemma distinct_assign:
  "distinct (map fst obj) \<Longrightarrow> distinct (map fst (assign k v obj))"
  by (simp add: assign_def distinct_define_own)

lemma map_of_assign:
  "k \<noteq> ''__proto__'' \<Longrightarrow> map_of (assign k v obj) = (map_of obj)(k \<mapsto> v)"
  by (simp add: assign_def map_of_define_own)

lemma map_of_assign_other:
  "n \<noteq> k \<Longrightarrow> map_of (assign k v obj) n = map_of obj n"
  by (simp add: assign_def map_of_define_own)

lemma distinct_index_entry:
  "distinct (map fst acc) \<Longrightarrow> distinct (map fst (index_entry e acc))"
  by (cases e) (simp add: index_entry_def distinct_assign split: option.splits)

lemma distinct_fold_index_entry:
  "distinct (map fst acc) \<Longrightarrow> distinct (map fst (fold index_entry table acc))"
  by (induction table arbitrary: acc) (simp_all add: distinct_index_entry)

lemma versions_of_Nil: "versions_of name [] = []"
  by (simp add: versions_of_def)

lemma versions_of_Cons:
  "versions_of name ((p, i) # table) =
     (if p \<noteq> '''' \<and> normalizedName p = name
      then (case version i of None \<Rightarrow> [] | Some v \<Rightarrow> if v \<noteq> '''' then [v] else [])
      else []) @ versions_of name table"
  by (simp add: versions_of_def)

text \<open>The loop, from any state of the index: the last version met for a name stays.\<close>

lemma map_of_fold_index_entry:
  assumes "name \<noteq> ''__proto__''"
  shows "map_of (fold index_entry table acc) name =
           (if versions_of name table = [] then map_of acc name
            else Some (last (versions_of name table)))"
proof (induction table arbitrary: acc)
  case Nil
  show ?case by (simp add: versions_of_Nil)
next
  case (Cons e table)
  obtain p i where e: "e = (p, i)" by (cases e)
  show ?case
  proof (cases "p \<noteq> '''' \<and> normalizedName p = name \<and> (\<exists>v. version i = Some v \<and> v \<noteq> '''')")
    case True
    then obtain v where v: "version i = Some v" "v \<noteq> ''''" by blast
    from True v assms have step: "map_of (index_entry e acc) name = Some v"
      by (simp add: e index_entry_def map_of_assign)
    from True v have vs: "versions_of name (e # table) = v # versions_of name table"
      by (simp add: e versions_of_Cons)
    show ?thesis
      using Cons.IH [of "index_entry e acc"] step vs by simp
  next
    case False
    then have step: "map_of (index_entry e acc) name = map_of acc name"
      by (auto simp: e index_entry_def map_of_assign_other split: option.splits)
    from False have vs: "versions_of name (e # table) = versions_of name table"
      by (auto simp: e versions_of_Cons split: option.splits)
    show ?thesis
      using Cons.IH [of "index_entry e acc"] step vs by simp
  qed
qed

lemma count_key_distinct:
  "distinct (map fst obj) \<Longrightarrow>
     length (filter (\<lambda>e. fst e = n) obj) = (case map_of obj n of None \<Rightarrow> 0 | Some v \<Rightarrow> 1)"
proof (induction obj)
  case Nil
  then show ?case by simp
next
  case (Cons e obj)
  show ?case
  proof (cases "fst e = n")
    case True
    with Cons.prems have "n \<notin> fst ` set obj" by auto
    then have "filter (\<lambda>e. fst e = n) obj = []" by (auto simp: filter_empty_conv)
    with True show ?thesis by (cases e) simp
  next
    case False
    with Cons show ?thesis by (cases e) auto
  qed
qed

text \<open>
  Claim C5, as the code has it. For every readable lock file and every canonical name
  other than \<^verbatim>\<open>__proto__\<close>, \<^verbatim>\<open>getAllInstalledPackages\<close> raises no error; the
  entries without a version are skipped; when at least one installation path of the
  name carries a version, the index holds exactly one entry for the name, with the
  version of the last such path that carries one, in table order; when none does, the
  index holds no entry for the name.
\<close>

theorem last_versioned_entry_wins:
  assumes "readLock files packageLockPath = Some packageLock"
    and "packages packageLock = Some table"
    and "name \<noteq> ''__proto__''"
  shows "getAllInstalledPackages files packageLockPath = Inr (fold index_entry table [])
       \<and> length (filter (\<lambda>e. fst e = name) (fold index_entry table []))
           = (if versions_of name table = [] then 0 else 1)
       \<and> map_of (fold index_entry table []) name
           = (if versions_of name table = [] then None
              else Some (last (versions_of name table)))"
proof -
  have d: "distinct (map fst (fold index_entry table []))"
    by (rule distinct_fold_index_entry) simp
  have m: "map_of (fold index_entry table []) name
           = (if versions_of name table = [] then None
              else Some (last (versions_of name table)))"
    using map_of_fold_index_entry [OF assms(3), of table "[]"] by simp
  have c: "length (filter (\<lambda>e. fst e = name) (fold index_entry table []))
           = (if versions_of name table = [] then 0 else 1)"
    using count_key_distinct [OF d, of name] m by simp
  show ?thesis
    using assms(1,2) m c by (simp add: getAllInstalledPackages_def)
qed

text \<open>Two installation paths of \<^verbatim>\<open>ms\<close>: the later one in the table gives the version.\<close>

theorem last_versioned_entry_wins_witness:
  "versions_of ''ms'' nested_table = [''2.1.2'', ''2.0.0'']
   \<and> getAllInstalledPackages files_nested ''./package-lock.json''
       = Inr (fold index_entry nested_table [])
   \<and> length (filter (\<lambda>e. fst e = ''ms'') (fold index_entry nested_table [])) = 1
   \<and> map_of (fold index_entry nested_table []) ''ms'' = Some ''2.0.0''"
proof -
  have r: "readLock files_nested ''./package-lock.json'' = Some \<lparr> packages = Some nested_table \<rparr>"
    by (simp add: files_nested_def)
  have p: "packages \<lparr> packages = Some nested_table \<rparr> = Some nested_table"
    by simp
  have n: "''ms'' \<noteq> ''__proto__''"
    by simp
  have v: "versions_of ''ms'' nested_table = [''2.1.2'', ''2.0.0'']"
    by (simp add: versions_of_def nested_table_def normalizedName_def startsWith_def pop_def)
  from last_versioned_entry_wins [OF r p n] v show ?thesis
    by simp
qed

text \<open>
  The claim as it is written fails on a workspace: both paths give the name
  \<^verbatim>\<open>foo\<close>, the last of them in table order has no version, and the index holds the
  version of the first.
\<close>

theorem last_entry_without_version_counterexample:
  "normalizedName ''apps/foo'' = ''foo''
   \<and> normalizedName ''node_modules/foo'' = ''foo''
   \<and> version (snd (last workspace_table)) = None
   \<and> getAllInstalledPackages files_workspace ''./package-lock.json'' = Inr [(''foo'', ''1.0.0'')]"
  by (simp add: getAllInstalledPackages_def files_workspace_def workspace_table_def
        index_entry_def assign_def define_own_def array_index_def digit_value_def
        normalizedName_def startsWith_def pop_def)

section \<open>The loop of the scan\<close>

lemma map_vulnerabilities_Inr:
  "map_vulnerabilities xs = Inr ys \<Longrightarrow> list_all2 (\<lambda>x y. vulnerability_fields x = Inr y) xs ys"
  by (induction xs arbitrary: ys) (auto split: sum.splits)

lemma map_vulnerabilities_length:
  "map_vulnerabilities xs = Inr ys \<Longrightarrow> length ys = length xs"
  by (drule map_vulnerabilities_Inr) (rule list_all2_lengthD [symmetric])

lemma map_vulnerabilities_succeeds:
  "list_all (\<lambda>x. x \<noteq> JNull \<and> x \<noteq> JUndefined) xs \<Longrightarrow> \<exists>ys. map_vulnerabilities xs = Inr ys"
proof (induction xs)
  case Nil
  show ?case by simp
next
  case (Cons x xs)
  then obtain ys where ys: "map_vulnerabilities xs = Inr ys"
    by auto
  from Cons.prems obtain y where "vulnerability_fields x = Inr y"
    by (cases x) (auto simp: vulnerability_fields_def)
  with ys show ?case by simp
qed

lemma map_vulnerabilities_fails:
  "\<not> list_all (\<lambda>x. x \<noteq> JNull \<and> x \<noteq> JUndefined) xs \<Longrightarrow> map_vulnerabilities xs = Inl TypeError"
proof (induction xs)
  case Nil
  then show ?case by simp
next
  case (Cons x xs)
  show ?case
  proof (cases "x = JNull \<or> x = JUndefined")
    case True
    then show ?thesis by (auto simp: vulnerability_fields_def)
  next
    case False
    with Cons.prems have "\<not> list_all (\<lambda>x. x \<noteq> JNull \<and> x \<noteq> JUndefined) xs"
      by simp
    then have "map_vulnerabilities xs = Inl TypeError"
      by (rule Cons.IH)
    moreover from False obtain y where "vulnerability_fields x = Inr y"
      by (cases x) (auto simp: vulnerability_fields_def)
    ultimately show ?thesis
      by simp
  qed
qed

text \<open>What a turn of the loop that ends gives, field by field.\<close>

lemma scan_package_Inr:
  assumes "scan_package registry dependencyTypes (name, v) = Inr r"
  shows "package r = name"
    and "currentVersion r = v"
    and "dependencyType r =
           (if truthy (js_get dependencyTypes name) then js_get dependencyTypes name
            else JStr ''direct'')"
    and "publishedAt r =
           (case getVersionInfo registry name v of
              None \<Rightarrow> ''Unknown''
            | Some info \<Rightarrow> (case info_publishedAt info of
                              None \<Rightarrow> ''Unknown''
                            | Some p \<Rightarrow> if p \<noteq> '''' then p else ''Unknown''))"
    and "\<exists>xs. getVulnerabilities registry name v = JArr xs
              \<and> map_vulnerabilities xs = Inr (vulnerabilities r)
              \<and> vulnerabilityCount r = length xs"
  using assms
  by (auto simp: scan_package_def Let_def split: jsv.splits sum.splits)

text \<open>A turn of the loop ends exactly when the advisories can be mapped.\<close>

lemma scan_package_succeeds:
  "mappable (getVulnerabilities registry name v) \<Longrightarrow>
     \<exists>r. scan_package registry dependencyTypes (name, v) = Inr r"
proof -
  assume "mappable (getVulnerabilities registry name v)"
  then obtain xs where xs: "getVulnerabilities registry name v = JArr xs"
      and ok: "list_all (\<lambda>x. x \<noteq> JNull \<and> x \<noteq> JUndefined) xs"
    by (cases "getVulnerabilities registry name v") (auto simp: mappable_def)
  from ok obtain ys where "map_vulnerabilities xs = Inr ys"
    using map_vulnerabilities_succeeds by blast
  with xs show ?thesis
    by (simp add: scan_package_def Let_def)
qed

lemma scan_package_fails:
  "\<not> mappable (getVulnerabilities registry name v) \<Longrightarrow>
     scan_package registry dependencyTypes (name, v) = Inl TypeError"
proof -
  assume n: "\<not> mappable (getVulnerabilities registry name v)"
  show ?thesis
  proof (cases "getVulnerabilities registry name v")
    case (JArr xs)
    with n have "\<not> list_all (\<lambda>x. x \<noteq> JNull \<and> x \<noteq> JUndefined) xs"
      by (simp add: mappable_def)
    then have "map_vulnerabilities xs = Inl TypeError"
      by (rule map_vulnerabilities_fails)
    with JArr show ?thesis
      by (simp add: scan_package_def Let_def)
  qed (simp_all add: scan_package_def Let_def)
qed

lemma scan_entries_Inr:
  "scan_entries registry dependencyTypes entries = Inr rs \<longleftrightarrow>
     list_all2 (\<lambda>e r. scan_package registry dependencyTypes e = Inr r) entries rs"
proof (induction entries arbitrary: rs)
  case Nil
  show ?case by auto
next
  case (Cons e entries)
  show ?case
  proof (cases "scan_package registry dependencyTypes e")
    case (Inl err)
    then show ?thesis by (cases rs) auto
  next
    case (Inr r)
    note r = this
    show ?thesis
    proof (cases "scan_entries registry dependencyTypes entries")
      case (Inl err)
      then have "\<not> list_all2 (\<lambda>e r. scan_package registry dependencyTypes e = Inr r) entries rs'"
        for rs'
        using Cons.IH [of rs'] by simp
      with r Inl show ?thesis by (cases rs) auto
    next
      case (Inr rs0)
      then have "list_all2 (\<lambda>e r. scan_package registry dependencyTypes e = Inr r) entries rs'
                 \<longleftrightarrow> rs' = rs0" for rs'
        using Cons.IH [of rs'] by auto
      with r Inr show ?thesis by (cases rs) auto
    qed
  qed
qed

text \<open>One entry whose advisories cannot be mapped ends the scan, with no record at all.\<close>

lemma scan_entries_fails:
  "(name, v) \<in> set entries \<Longrightarrow> \<not> mappable (getVulnerabilities registry name v) \<Longrightarrow>
     scan_entries registry dependencyTypes entries = Inl TypeError"
proof (induction entries)
  case Nil
  then show ?case by simp
next
  case (Cons e entries)
  show ?case
  proof (cases "e = (name, v)")
    case True
    with Cons.prems show ?thesis
      by (simp add: scan_package_fails)
  next
    case False
    with Cons have tail: "scan_entries registry dependencyTypes entries = Inl TypeError"
      by simp
    obtain n w where e: "e = (n, w)" by (cases e)
    show ?thesis
    proof (cases "mappable (getVulnerabilities registry n w)")
      case True
      then obtain r where "scan_package registry dependencyTypes (n, w) = Inr r"
        using scan_package_succeeds by blast
      with tail show ?thesis by (simp add: e)
    next
      case False
      then show ?thesis by (simp add: e scan_package_fails)
    qed
  qed
qed

lemma scan_entries_record:
  assumes "scan_entries registry dependencyTypes entries = Inr rs" and "r \<in> set rs"
  shows "\<exists>e\<in>set entries. scan_package registry dependencyTypes e = Inr r"
proof -
  from assms(1) have all: "list_all2 (\<lambda>e r. scan_package registry dependencyTypes e = Inr r) entries rs"
    by (simp add: scan_entries_Inr)
  from assms(2) obtain i where i: "i < length rs" "rs ! i = r"
    by (auto simp: in_set_conv_nth)
  from all i have "scan_package registry dependencyTypes (entries ! i) = Inr r"
    by (auto dest: list_all2_nthD2)
  moreover from all i have "entries ! i \<in> set entries"
    by (auto dest: list_all2_lengthD)
  ultimately show ?thesis by blast
qed

lemma scan_entries_nth:
  assumes "scan_entries registry dependencyTypes entries = Inr rs" and "i < length entries"
  shows "scan_package registry dependencyTypes (entries ! i) = Inr (rs ! i)"
  using assms by (auto simp: scan_entries_Inr dest: list_all2_nthD)

lemma scan_entries_length:
  "scan_entries registry dependencyTypes entries = Inr rs \<Longrightarrow> length rs = length entries"
  by (auto simp: scan_entries_Inr dest: list_all2_lengthD)

lemma scan_entries_packages:
  assumes "scan_entries registry dependencyTypes entries = Inr rs"
  shows "map package rs = map fst entries"
proof (rule nth_equalityI)
  show "length (map package rs) = length (map fst entries)"
    using assms by (simp add: scan_entries_length)
next
  fix i assume "i < length (map package rs)"
  then have i: "i < length entries"
    using assms by (simp add: scan_entries_length)
  obtain name v where e: "entries ! i = (name, v)" by (cases "entries ! i")
  from scan_entries_nth [OF assms i] have "package (rs ! i) = name"
    unfolding e by (rule scan_package_Inr(1))
  with i e assms show "map package rs ! i = map fst entries ! i"
    by (simp add: scan_entries_length)
qed

section \<open>The classification\<close>

text \<open>What the test \<^verbatim>\<open>directDeps[packageName] ? ... : ...\<close> looks at.\<close>

lemma truthy_js_get:
  "truthy (js_get obj k) =
     (case map_of obj k of Some v \<Rightarrow> v \<noteq> '''' | None \<Rightarrow> k \<in> set object_prototype_keys)"
  by (simp add: js_get_def split: option.splits)

lemma map_of_fold_classify:
  assumes "n \<noteq> ''__proto__''"
  shows "map_of (fold (\<lambda>(packageName, ver) dependencyTypes.
                         assign packageName
                           (if truthy (js_get directDeps packageName)
                            then ''direct'' else ''transitive'') dependencyTypes) allDeps acc) n
         = (if n \<in> fst ` set allDeps
            then Some (if truthy (js_get directDeps n) then ''direct'' else ''transitive'')
            else map_of acc n)"
  using assms
proof (induction allDeps arbitrary: acc)
  case Nil
  show ?case by simp
next
  case (Cons e allDeps)
  obtain k v where e: "e = (k, v)" by (cases e)
  show ?case
  proof (cases "k = n")
    case True
    with Cons show ?thesis by (simp add: e map_of_assign)
  next
    case False
    with Cons show ?thesis by (simp add: e map_of_assign_other)
  qed
qed

text \<open>
  Every installed package other than \<^verbatim>\<open>__proto__\<close> gets its classification from the
  truth value of what the declared mapping yields under its name.
\<close>

lemma map_of_classify:
  assumes "n \<noteq> ''__proto__''"
  shows "map_of (classify directDeps allDeps) n
         = (if n \<in> fst ` set allDeps
            then Some (if truthy (js_get directDeps n) then ''direct'' else ''transitive'')
            else None)"
  unfolding classify_def using map_of_fold_classify [OF assms, of directDeps allDeps "[]"]
  by simp

lemma distinct_classify: "distinct (map fst (classify directDeps allDeps))"
proof -
  have "distinct (map fst acc) \<Longrightarrow>
        distinct (map fst (fold (\<lambda>(packageName, ver) dependencyTypes.
                         assign packageName
                           (if truthy (js_get directDeps packageName)
                            then ''direct'' else ''transitive'') dependencyTypes) allDeps acc))"
    for acc
    by (induction allDeps arbitrary: acc) (auto simp: distinct_assign)
  from this [of "[]"] show ?thesis
    by (simp add: classify_def)
qed

lemma proto_not_assigned:
  "map_of obj ''__proto__'' = None \<Longrightarrow> map_of (assign k v obj) ''__proto__'' = None"
  by (cases "k = ''__proto__''") (simp_all add: assign_def map_of_define_own)

lemma proto_not_classified: "map_of (classify directDeps allDeps) ''__proto__'' = None"
proof -
  have "map_of acc ''__proto__'' = None \<Longrightarrow>
        map_of (fold (\<lambda>(packageName, ver) dependencyTypes.
                         assign packageName
                           (if truthy (js_get directDeps packageName)
                            then ''direct'' else ''transitive'') dependencyTypes) allDeps acc)
               ''__proto__'' = None" for acc
    by (induction allDeps arbitrary: acc) (auto simp: proto_not_assigned)
  from this [of "[]"] show ?thesis
    by (simp add: classify_def)
qed

text \<open>
  One classification for each installed package: the classified names are the installed
  names (\<^verbatim>\<open>__proto__\<close> apart), each once.
\<close>

lemma classify_keys:
  "fst ` set (classify directDeps allDeps) = fst ` set allDeps - {''__proto__''}"
proof (rule set_eqI)
  fix n
  show "n \<in> fst ` set (classify directDeps allDeps) \<longleftrightarrow> n \<in> fst ` set allDeps - {''__proto__''}"
  proof (cases "n = ''__proto__''")
    case True
    have "map_of (classify directDeps allDeps) n = None"
      unfolding True by (rule proto_not_classified)
    then have "n \<notin> fst ` set (classify directDeps allDeps)"
      by (simp add: map_of_eq_None_iff)
    with True show ?thesis by simp
  next
    case False
    have "n \<in> fst ` set (classify directDeps allDeps)
          \<longleftrightarrow> map_of (classify directDeps allDeps) n \<noteq> None"
      by (simp add: map_of_eq_None_iff)
    with False show ?thesis
      by (simp add: map_of_classify)
  qed
qed

text \<open>
  When every declared range is a non-empty string and the name is not one that a plain
  object inherits, the classification is the membership test of the specification.
\<close>

lemma classify_direct_iff_declared:
  assumes "n \<notin> set object_prototype_keys"
    and "n \<in> fst ` set allDeps"
    and "\<forall>(k, range) \<in> set directDeps. range \<noteq> ''''"
  shows "map_of (classify directDeps allDeps) n = Some ''direct'' \<longleftrightarrow> n \<in> fst ` set directDeps"
    and "map_of (classify directDeps allDeps) n = Some ''transitive'' \<longleftrightarrow> n \<notin> fst ` set directDeps"
proof -
  from assms(1) have n: "n \<noteq> ''__proto__''"
    by (auto simp: object_prototype_keys_def)
  have t: "truthy (js_get directDeps n) \<longleftrightarrow> n \<in> fst ` set directDeps"
  proof (cases "map_of directDeps n")
    case None
    then have "n \<notin> fst ` set directDeps"
      by (simp add: map_of_eq_None_iff)
    with None assms(1) show ?thesis
      by (simp add: truthy_js_get)
  next
    case (Some range)
    then have "(n, range) \<in> set directDeps" by (rule map_of_SomeD)
    with assms(3) Some show ?thesis
      by (force simp: truthy_js_get)
  qed
  show "map_of (classify directDeps allDeps) n = Some ''direct'' \<longleftrightarrow> n \<in> fst ` set directDeps"
    using assms(2) t by (simp add: map_of_classify [OF n])
  show "map_of (classify directDeps allDeps) n = Some ''transitive'' \<longleftrightarrow> n \<notin> fst ` set directDeps"
    using assms(2) t by (simp add: map_of_classify [OF n])
qed

text \<open>
  Claim C1. For every installed-package mapping and every merged declared mapping,
  \<^verbatim>\<open>getDependencyTypes\<close> gives each installed package one classification, direct if
  and only if its name is a key of the declared mapping, whatever value the key holds,
  and transitive otherwise. The code tests the truth value of the stored value instead
  of the presence of the key: \<^verbatim>\<open>foo\<close>, declared with the empty range and installed,
  is a key of the declared mapping and is classified transitive.
\<close>

theorem empty_range_classified_transitive:
  "getDependencies files_empty_range ''./package.json'' = Inr [(''foo'', '''')]
   \<and> getAllInstalledPackages files_empty_range ''./package-lock.json'' = Inr [(''foo'', ''2.3.4'')]
   \<and> getDependencyTypes files_empty_range ''./package.json'' = Inr [(''foo'', ''transitive'')]"
  by (simp add: getDependencies_def getAllInstalledPackages_def getDependencyTypes_def
        files_empty_range_def spread_def classify_def index_entry_def assign_def
        define_own_def array_index_def digit_value_def js_get_def normalizedName_def
        startsWith_def pop_def)

text \<open>
  The scan without a lock file, of the manifest in the working directory: it runs on
  the merged mapping, and when every declared range is a non-empty string (and no
  declared name is \<^verbatim>\<open>__proto__\<close>), every record it yields is direct.
\<close>

lemma degraded_scan_all_direct:
  assumes lock: "readLock files ''./package-lock.json'' = None"
    and man: "readManifest files ''./package.json'' = Some packageJson"
    and merged: "merged = spread (devDependencies packageJson) (spread (dependencies packageJson) [])"
    and ranges: "\<forall>(k, range) \<in> set merged. range \<noteq> ''''"
    and proto: "''__proto__'' \<notin> fst ` set merged"
  shows "scanDependencies files registry ''./package.json'' True
           = scan_entries registry (classify merged merged) merged"
    and "scan_entries registry (classify merged merged) merged = Inr rs \<Longrightarrow>
           map package rs = map fst merged \<and> (\<forall>r \<in> set rs. dependencyType r = JStr ''direct'')"
proof -
  show "scanDependencies files registry ''./package.json'' True
           = scan_entries registry (classify merged merged) merged"
    using lock man merged
    by (simp add: scanDependencies_def getAllInstalledPackages_def getDependencies_def
          getDependencyTypes_def Let_def)
  assume rs: "scan_entries registry (classify merged merged) merged = Inr rs"
  have "dependencyType r = JStr ''direct''" if r: "r \<in> set rs" for r
  proof -
    from scan_entries_record [OF rs r] obtain n v where e: "(n, v) \<in> set merged"
        and scan: "scan_package registry (classify merged merged) (n, v) = Inr r"
      by force
    from e have key: "n \<in> fst ` set merged" by force
    with proto have n: "n \<noteq> ''__proto__''" by blast
    from key obtain range where range: "map_of merged n = Some range"
      by (cases "map_of merged n") (auto simp: map_of_eq_None_iff)
    then have "(n, range) \<in> set merged" by (rule map_of_SomeD)
    with ranges have "range \<noteq> ''''" by auto
    with range have "truthy (js_get merged n)" by (simp add: truthy_js_get)
    with key have "map_of (classify merged merged) n = Some ''direct''"
      by (simp add: map_of_classify [OF n])
    then have "js_get (classify merged merged) n = JStr ''direct''"
      by (simp add: js_get_def)
    with scan_package_Inr(3) [OF scan] show ?thesis
      by simp
  qed
  with scan_entries_packages [OF rs]
  show "map package rs = map fst merged \<and> (\<forall>r \<in> set rs. dependencyType r = JStr ''direct'')"
    by blast
qed

text \<open>
  Claim C3. For every readable manifest, when the lock file is missing or malformed the
  scan completes on the merged mapping of the manifest, and every record is classified
  direct. The code classifies the fallback set by the same truth-value test: with no
  lock file, \<^verbatim>\<open>foo\<close> declared with the empty range is scanned and classified
  transitive. And the fallback reads \<^verbatim>\<open>./package.json\<close> whatever manifest the scan
  was given: a readable manifest elsewhere, with no manifest in the working directory,
  makes the scan fail.
\<close>

theorem degraded_scan_not_all_direct:
  "map_sum id (map package) (scanDependencies files_no_lock offline ''./package.json'' True)
     = Inr [''foo'']
   \<and> map_sum id (map dependencyType)
         (scanDependencies files_no_lock offline ''./package.json'' True)
     = Inr [JStr ''transitive'']
   \<and> getDependencies files_elsewhere ''./app/package.json'' = Inr [(''axios'', ''^1.12.2'')]
   \<and> scanDependencies files_elsewhere offline ''./app/package.json'' True
       = Inl FailedToReadPackageJson"
  by (simp add: scanDependencies_def getDependencies_def getAllInstalledPackages_def
        getDependencyTypes_def files_no_lock_def files_elsewhere_def spread_def classify_def
        assign_def define_own_def array_index_def digit_value_def js_get_def
        scan_package_def Let_def getVulnerabilities_def getVersionInfo_def offline_def)

text \<open>
  The scan of the direct dependencies alone: it reads the manifest it was given and
  nothing of the lock files, and a package whose name a plain object does not inherit
  is classified direct.
\<close>

lemma direct_only_scan:
  assumes "readManifest files packageJsonPath = Some packageJson"
  shows "scanDependencies files registry packageJsonPath False
         = scan_entries registry []
             (spread (devDependencies packageJson) (spread (dependencies packageJson) []))"
  using assms by (simp add: scanDependencies_def getDependencies_def)

lemma direct_only_ignores_lock:
  "scanDependencies (files\<lparr> readLock := locks \<rparr>) registry packageJsonPath False
   = scanDependencies files registry packageJsonPath False"
  by (simp add: scanDependencies_def getDependencies_def)

lemma direct_only_type:
  assumes "n \<notin> set object_prototype_keys" and "scan_package registry [] (n, v) = Inr r"
  shows "dependencyType r = JStr ''direct''"
  using scan_package_Inr(3) [OF assms(2)] assms(1) by (simp add: js_get_def)

text \<open>
  Claim C10. For every manifest, a scan of the direct dependencies alone
  (\<^verbatim>\<open>includeTransitive = false\<close>) scans exactly the merged mapping of the manifest,
  never consults the lock file, and gives every record the type direct. The code reads
  the type from the empty object \<^verbatim>\<open>{}\<close> before it falls back to direct, and the
  empty object inherits \<^verbatim>\<open>constructor\<close>: the record of a declared package of that
  name has the inherited function as its type.
\<close>

theorem direct_only_inherited_type:
  "map_sum id (map package)
     (scanDependencies files_constructor offline ''./package.json'' False)
     = Inr [''constructor'']
   \<and> map_sum id (map dependencyType)
         (scanDependencies files_constructor offline ''./package.json'' False)
     = Inr [JInherited ''constructor'']"
  by (simp add: scanDependencies_def getDependencies_def files_constructor_def spread_def
        define_own_def array_index_def digit_value_def js_get_def scan_package_def Let_def
        object_prototype_keys_def getVulnerabilities_def getVersionInfo_def offline_def)

section \<open>The scan and the failures of the registry\<close>




text \<open>
  The classification writes the two words only, and a record takes its type from it:
  for a package whose name a plain object does not inherit, the type is one of the two.
\<close>

lemma classify_values:
  "(k, t) \<in> set (classify directDeps allDeps) \<Longrightarrow> t = ''direct'' \<or> t = ''transitive''"
proof -
  have upd: "(k, t) \<in> set (update_own n w obj) \<Longrightarrow> (k, t) \<in> set obj \<or> t = w" for n w obj
    by (induction obj) (auto split: if_splits)
  have ins: "(k, t) \<in> set (insert_index m (n, w) obj) \<Longrightarrow> (k, t) \<in> set obj \<or> t = w"
    for m n w obj
    by (induction obj) (auto split: if_splits option.splits)
  have own: "(k, t) \<in> set (define_own n w obj) \<Longrightarrow> (k, t) \<in> set obj \<or> t = w" for n w obj
    using upd [of n w obj] ins [of _ n w obj]
    by (auto simp: define_own_def split: if_splits option.splits)
  have asg: "(k, t) \<in> set (assign n w obj) \<Longrightarrow> (k, t) \<in> set obj \<or> t = w" for n w obj
    using own [of n w obj] by (auto simp: assign_def split: if_splits)
  have "(k, t) \<in> set (fold (\<lambda>(packageName, ver) dependencyTypes.
                         assign packageName
                           (if truthy (js_get directDeps packageName)
                            then ''direct'' else ''transitive'') dependencyTypes) allDeps acc)
        \<Longrightarrow> (k, t) \<in> set acc \<or> t = ''direct'' \<or> t = ''transitive''" for acc
  proof (induction allDeps arbitrary: acc)
    case Nil
    then show ?case by simp
  next
    case (Cons e allDeps)
    obtain n v where e: "e = (n, v)" by (cases e)
    from Cons.prems Cons.IH [of "assign n (if truthy (js_get directDeps n)
                                           then ''direct'' else ''transitive'') acc"]
    show ?case
      using asg [of n "if truthy (js_get directDeps n) then ''direct'' else ''transitive''" acc]
      by (auto simp: e split: if_splits)
  qed
  from this [of "[]"] show "(k, t) \<in> set (classify directDeps allDeps) \<Longrightarrow>
      t = ''direct'' \<or> t = ''transitive''"
    by (simp add: classify_def)
qed

lemma scan_package_type:
  assumes "n \<notin> set object_prototype_keys"
    and "scan_package registry (classify directDeps allDeps) (n, v) = Inr r"
  shows "dependencyType r = JStr ''direct'' \<or> dependencyType r = JStr ''transitive''"
proof (cases "map_of (classify directDeps allDeps) n")
  case None
  with assms(1) scan_package_Inr(3) [OF assms(2)] show ?thesis
    by (simp add: js_get_def)
next
  case (Some t)
  then have "(n, t) \<in> set (classify directDeps allDeps)"
    by (rule map_of_SomeD)
  then have "t = ''direct'' \<or> t = ''transitive''"
    by (rule classify_values)
  with Some scan_package_Inr(3) [OF assms(2)] show ?thesis
    by (auto simp: js_get_def)
qed





section \<open>The oldest dependencies\<close>

lemma compareDates_timestamp:
  assumes "parseDate (publishedAt a) \<noteq> None" and "parseDate (publishedAt b) \<noteq> None"
  shows "compareDates parseDate a b = timestamp parseDate a - timestamp parseDate b"
  using assms by (auto simp: compareDates_def timestamp_def)

text \<open>On dates that parse, the difference of the time values is a consistent comparator.\<close>

lemma compareDates_consistent:
  assumes "\<forall>y\<in>set xs. parseDate (publishedAt y) \<noteq> None"
  shows "consistent_comparator (compareDates parseDate) xs"
  unfolding consistent_comparator_def
proof (intro conjI ballI)
  fix a assume "a \<in> set xs"
  with assms show "compareDates parseDate a a = 0"
    by (simp add: compareDates_timestamp)
next
  fix a b assume "a \<in> set xs" "b \<in> set xs"
  with assms show "compareDates parseDate a b = 0 \<longrightarrow> compareDates parseDate b a = 0"
    by (simp add: compareDates_timestamp)
next
  fix a b c assume "a \<in> set xs" "b \<in> set xs" "c \<in> set xs"
  with assms show "compareDates parseDate a b = 0 \<and> compareDates parseDate b c = 0
                   \<longrightarrow> compareDates parseDate a c = 0"
    by (simp add: compareDates_timestamp)
next
  fix a b c assume "a \<in> set xs" "b \<in> set xs" "c \<in> set xs"
  with assms show "compareDates parseDate a b < 0 \<and> compareDates parseDate b c < 0
                   \<longrightarrow> compareDates parseDate a c < 0"
    by (simp add: compareDates_timestamp)
next
  fix a b c assume "a \<in> set xs" "b \<in> set xs" "c \<in> set xs"
  with assms show "compareDates parseDate a b > 0 \<and> compareDates parseDate b c > 0
                   \<longrightarrow> compareDates parseDate a c > 0"
    by (simp add: compareDates_timestamp)
qed

lemma insert_sorted_insort_key:
  assumes "parseDate (publishedAt x) \<noteq> None"
    and "\<forall>y\<in>set ys. parseDate (publishedAt y) \<noteq> None"
  shows "insert_sorted (compareDates parseDate) x ys = insort_key (timestamp parseDate) x ys"
  using assms
  by (induction ys) (auto simp: compareDates_def timestamp_def)

lemma foldr_insert_sorted:
  assumes "\<forall>y\<in>set xs. parseDate (publishedAt y) \<noteq> None"
  shows "foldr (insert_sorted (compareDates parseDate)) xs [] = sort_key (timestamp parseDate) xs"
  using assms
proof (induction xs)
  case Nil
  show ?case by simp
next
  case (Cons x xs)
  then have IH: "foldr (insert_sorted (compareDates parseDate)) xs []
                   = sort_key (timestamp parseDate) xs"
    by simp
  have "\<forall>y\<in>set (sort_key (timestamp parseDate) xs). parseDate (publishedAt y) \<noteq> None"
    using Cons.prems by simp
  with Cons.prems IH show ?case
    by (simp add: insert_sorted_insort_key)
qed

text \<open>On dates that parse, the sort of the language is the stable sort by time value.\<close>

lemma array_sort_sort_key:
  assumes "\<forall>y\<in>set xs. parseDate (publishedAt y) \<noteq> None"
  shows "array_sort (compareDates parseDate) xs = Sorted (sort_key (timestamp parseDate) xs)"
  using assms by (simp add: array_sort_def compareDates_consistent foldr_insert_sorted)

text \<open>When no record has a date, the view is empty, whatever the dates are.\<close>

lemma oldest_of_unknown:
  assumes "\<forall>r\<in>set rs. publishedAt r = ''Unknown''"
  shows "oldestDependencies parseDate rs = Sorted []"
proof -
  from assms have "filter (\<lambda>r. publishedAt r \<noteq> ''Unknown'') rs = []"
    by (simp add: filter_empty_conv)
  then show ?thesis
    by (simp add: oldestDependencies_def sortedByDate_def array_sort_def
          consistent_comparator_def)
qed

text \<open>
  Claim C8, as the code has it. The code takes for known every publication date that is
  not the word \<^verbatim>\<open>Unknown\<close>. For every sequence of scan records in which each of these
  dates parses, the oldest-dependencies view of \<^verbatim>\<open>generateReport\<close> is made of the
  records whose date is not \<^verbatim>\<open>Unknown\<close>, in ascending order of their publication
  timestamp, records with the same timestamp in their input order, cut to the first 5;
  when every record has the date \<^verbatim>\<open>Unknown\<close> the view is empty, and nothing fails.
\<close>

theorem oldest_dependencies_view:
  assumes "\<forall>r\<in>set rs. publishedAt r \<noteq> ''Unknown'' \<longrightarrow> parseDate (publishedAt r) \<noteq> None"
  shows "\<exists>ys. sortedByDate parseDate rs = Sorted ys
            \<and> oldestDependencies parseDate rs = Sorted (take 5 ys)
            \<and> mset ys = mset (filter (\<lambda>r. publishedAt r \<noteq> ''Unknown'') rs)
            \<and> sorted (map (timestamp parseDate) ys)
            \<and> (\<forall>t. filter (\<lambda>r. timestamp parseDate r = t) ys
                   = filter (\<lambda>r. timestamp parseDate r = t)
                       (filter (\<lambda>r. publishedAt r \<noteq> ''Unknown'') rs))
            \<and> ((\<forall>r\<in>set rs. publishedAt r = ''Unknown'') \<longrightarrow> ys = [])"
proof -
  let ?known = "filter (\<lambda>r. publishedAt r \<noteq> ''Unknown'') rs"
  let ?ys = "sort_key (timestamp parseDate) ?known"
  have "\<forall>y\<in>set ?known. parseDate (publishedAt y) \<noteq> None"
    using assms by simp
  then have eq: "sortedByDate parseDate rs = Sorted ?ys"
    unfolding sortedByDate_def by (rule array_sort_sort_key)
  then have view: "oldestDependencies parseDate rs = Sorted (take 5 ?ys)"
    by (simp add: oldestDependencies_def)
  have none: "(\<forall>r\<in>set rs. publishedAt r = ''Unknown'') \<longrightarrow> ?ys = []"
    by (simp add: filter_empty_conv)
  have "mset ?ys = mset ?known" "sorted (map (timestamp parseDate) ?ys)"
       "\<forall>t. filter (\<lambda>r. timestamp parseDate r = t) ?ys
            = filter (\<lambda>r. timestamp parseDate r = t) ?known"
    by (simp_all add: sort_key_stable)
  with eq view none show ?thesis
    by blast
qed

text \<open>
  Eight records, one without a date: the five oldest, the two of 2015 first and in their
  input order, then the three of 2020 in theirs. And one record without a date: no view.
\<close>

theorem oldest_dependencies_view_witness:
  "oldestDependencies example_parseDate example_dated_records
     = Sorted [dated ''c'' ''2015-03-01T10:00:00Z'', dated ''f'' ''2015-03-01T10:00:00Z'',
               dated ''a'' ''2020-06-15T00:00:00Z'', dated ''e'' ''2020-06-15T00:00:00Z'',
               dated ''g'' ''2020-06-15T00:00:00Z'']
   \<and> oldestDependencies example_parseDate [dated ''b'' ''Unknown''] = Sorted []"
proof -
  have h: "\<forall>r\<in>set example_dated_records.
             publishedAt r \<noteq> ''Unknown'' \<longrightarrow> example_parseDate (publishedAt r) \<noteq> None"
    by (simp add: example_dated_records_def dated_def example_parseDate_def)
  have h': "\<forall>r\<in>set [dated ''b'' ''Unknown''].
             publishedAt r \<noteq> ''Unknown'' \<longrightarrow> example_parseDate (publishedAt r) \<noteq> None"
    by (simp add: dated_def)
  have u: "\<forall>r\<in>set [dated ''b'' ''Unknown'']. publishedAt r = ''Unknown''"
    by (simp add: dated_def)
  from oldest_dependencies_view [OF h] obtain ys
    where ys: "sortedByDate example_parseDate example_dated_records = Sorted ys"
      and view: "oldestDependencies example_parseDate example_dated_records = Sorted (take 5 ys)"
      and perm: "mset ys = mset (filter (\<lambda>r. publishedAt r \<noteq> ''Unknown'') example_dated_records)"
      and asc: "sorted (map (timestamp example_parseDate) ys)"
      and stable: "\<forall>t. filter (\<lambda>r. timestamp example_parseDate r = t) ys
                       = filter (\<lambda>r. timestamp example_parseDate r = t)
                           (filter (\<lambda>r. publishedAt r \<noteq> ''Unknown'') example_dated_records)"
    by blast
  have known: "\<forall>y\<in>set (filter (\<lambda>r. publishedAt r \<noteq> ''Unknown'') example_dated_records).
                 example_parseDate (publishedAt y) \<noteq> None"
    using h by simp
  have "sortedByDate example_parseDate example_dated_records
          = Sorted (sort_key (timestamp example_parseDate)
                      (filter (\<lambda>r. publishedAt r \<noteq> ''Unknown'') example_dated_records))"
    unfolding sortedByDate_def using known by (rule array_sort_sort_key)
  also have "sort_key (timestamp example_parseDate)
               (filter (\<lambda>r. publishedAt r \<noteq> ''Unknown'') example_dated_records)
             = [dated ''c'' ''2015-03-01T10:00:00Z'', dated ''f'' ''2015-03-01T10:00:00Z'',
                dated ''a'' ''2020-06-15T00:00:00Z'', dated ''e'' ''2020-06-15T00:00:00Z'',
                dated ''g'' ''2020-06-15T00:00:00Z'', dated ''d'' ''2025-09-14T12:59:27Z'',
                dated ''h'' ''2025-09-14T12:59:27Z'']"
    by (simp add: example_dated_records_def dated_def timestamp_def example_parseDate_def)
  finally have "ys = [dated ''c'' ''2015-03-01T10:00:00Z'', dated ''f'' ''2015-03-01T10:00:00Z'',
                dated ''a'' ''2020-06-15T00:00:00Z'', dated ''e'' ''2020-06-15T00:00:00Z'',
                dated ''g'' ''2020-06-15T00:00:00Z'', dated ''d'' ''2025-09-14T12:59:27Z'',
                dated ''h'' ''2025-09-14T12:59:27Z'']"
    using ys by simp
  with view have first: "oldestDependencies example_parseDate example_dated_records
     = Sorted [dated ''c'' ''2015-03-01T10:00:00Z'', dated ''f'' ''2015-03-01T10:00:00Z'',
               dated ''a'' ''2020-06-15T00:00:00Z'', dated ''e'' ''2020-06-15T00:00:00Z'',
               dated ''g'' ''2020-06-15T00:00:00Z'']"
    by simp
  from oldest_dependencies_view [OF h'] u
  have "oldestDependencies example_parseDate [dated ''b'' ''Unknown''] = Sorted []"
    by auto
  with first show ?thesis
    by simp
qed

text \<open>
  The claim speaks of every sequence of records. A scan copies whatever date the
  registry gives: with the date \<^verbatim>\<open>pending\<close>, which does not parse, the record is in
  the view although it has no publication timestamp; and among records with dates that
  parse, such a record makes the comparison inconsistent (the first and the second
  compare equal, the second and the third compare equal, the first is later than the
  third), so that the order of the view is not fixed by the language.
\<close>

theorem undated_record_in_view_counterexample:
  "scanDependencies scenario_files registry_pending_date ''./package.json'' False
     = Inr pending_records
   \<and> map publishedAt pending_records = [''pending'']
   \<and> example_parseDate ''pending'' = None
   \<and> oldestDependencies example_parseDate pending_records = Sorted pending_records
   \<and> map publishedAt mixed_dated_records
       = [''2020-06-15T00:00:00Z'', ''pending'', ''2015-03-01T10:00:00Z'']
   \<and> consistent_comparator (compareDates example_parseDate) mixed_dated_records = False
   \<and> sortedByDate example_parseDate mixed_dated_records = ImplementationDefined
   \<and> oldestDependencies example_parseDate mixed_dated_records = ImplementationDefined"
proof -
  have scan: "scanDependencies scenario_files registry_pending_date ''./package.json'' False
                = Inr pending_records"
    by (simp add: scanDependencies_def getDependencies_def scenario_files_def spread_def
          define_own_def array_index_def digit_value_def js_get_def scan_package_def Let_def
          object_prototype_keys_def getVulnerabilities_def getVersionInfo_def
          registry_pending_date_def pending_records_def ok_def)
  have one: "oldestDependencies example_parseDate pending_records = Sorted pending_records"
    by (simp add: oldestDependencies_def sortedByDate_def array_sort_def
          consistent_comparator_def pending_records_def compareDates_def
          example_parseDate_def)
  have "compareDates example_parseDate (dated ''a'' ''2020-06-15T00:00:00Z'')
          (dated ''b'' ''pending'') = 0"
       "compareDates example_parseDate (dated ''b'' ''pending'')
          (dated ''c'' ''2015-03-01T10:00:00Z'') = 0"
       "compareDates example_parseDate (dated ''a'' ''2020-06-15T00:00:00Z'')
          (dated ''c'' ''2015-03-01T10:00:00Z'') \<noteq> 0"
    by (simp_all add: compareDates_def dated_def example_parseDate_def)
  then have incons: "\<not> consistent_comparator (compareDates example_parseDate) mixed_dated_records"
    unfolding consistent_comparator_def mixed_dated_records_def
    by (metis list.set_intros(1) list.set_intros(2))
  have known: "filter (\<lambda>r. publishedAt r \<noteq> ''Unknown'') mixed_dated_records = mixed_dated_records"
    by (simp add: mixed_dated_records_def dated_def)
  have sorted: "sortedByDate example_parseDate mixed_dated_records = ImplementationDefined"
    using incons by (simp add: sortedByDate_def known array_sort_def)
  then have "oldestDependencies example_parseDate mixed_dated_records = ImplementationDefined"
    by (simp add: oldestDependencies_def)
  with scan one incons sorted show ?thesis
    by (simp add: pending_records_def mixed_dated_records_def dated_def example_parseDate_def)
qed

section \<open>The saved document, read again\<close>

lemma roundtrip_json_value:
  "json_value v \<Longrightarrow> map_option parse (stringify v) = Some v"
  "json_elements xs \<Longrightarrow> parse_elements (stringify_elements xs) = xs"
  "json_properties ps \<Longrightarrow> parse_properties (stringify_properties ps) = ps"
proof (induction v and xs and ps rule: json_value_json_elements_json_properties.induct)
qed (auto split: option.splits)

lemma parse_json_value:
  "json_value (parse j)"
  "json_elements (parse_elements js)"
  "json_properties (parse_properties qs)"
  by (induction j and js and qs rule: parse_parse_elements_parse_properties.induct) auto

text \<open>A value comes back as it was exactly when a JSON document can hold it.\<close>

lemma roundtrip_iff: "map_option parse (stringify v) = Some v \<longleftrightarrow> json_value v"
proof
  assume "map_option parse (stringify v) = Some v"
  then obtain j where "stringify v = Some j" "parse j = v"
    by auto
  then show "json_value v"
    using parse_json_value(1) [of j] by simp
next
  assume "json_value v"
  then show "map_option parse (stringify v) = Some v"
    by (rule roundtrip_json_value)
qed

lemma json_elements_iff: "json_elements xs \<longleftrightarrow> (\<forall>x\<in>set xs. json_value x)"
  by (induction xs) auto

lemma json_value_record:
  "json_value (record_value r) \<longleftrightarrow>
     json_value (dependencyType r) \<and> (\<forall>a\<in>set (vulnerabilities r). json_value a)"
  by (simp add: record_value_def json_elements_iff)

lemma json_value_report:
  "json_value (report_value rep) \<longleftrightarrow> (\<forall>r\<in>set (results rep). json_value (record_value r))"
  by (simp add: report_value_def json_elements_iff)

lemma stringify_json_value:
  assumes "json_value v"
  obtains j where "stringify v = Some j" and "parse j = v"
  using roundtrip_json_value(1) [OF assms] by auto

text \<open>What is read again: the properties that are defined, as they were.\<close>

lemma reread_properties:
  "list_all (\<lambda>p. snd p = JUndefined \<or> json_value (snd p)) ps \<Longrightarrow>
     parse_properties (stringify_properties ps) = filter (\<lambda>p. snd p \<noteq> JUndefined) ps"
proof (induction ps)
  case Nil
  show ?case by simp
next
  case (Cons p ps)
  then have IH: "parse_properties (stringify_properties ps)
                 = filter (\<lambda>p. snd p \<noteq> JUndefined) ps"
    by simp
  show ?case
  proof (cases "snd p = JUndefined")
    case True
    with IH show ?thesis by simp
  next
    case False
    with Cons.prems have "json_value (snd p)" by simp
    then obtain j where "stringify (snd p) = Some j" "parse j = snd p"
      by (rule stringify_json_value)
    with False IH show ?thesis by simp
  qed
qed

lemma reread_advisory:
  "advisory_like a \<Longrightarrow> map_option parse (stringify a) = Some (defined_fields a)"
  by (cases a) (simp_all add: advisory_like_def defined_fields_def reread_properties)

lemma reread_advisories:
  "\<forall>a\<in>set as. advisory_like a \<Longrightarrow>
     parse_elements (stringify_elements as) = map defined_fields as"
proof (induction as)
  case Nil
  show ?case by simp
next
  case (Cons a as)
  then have "map_option parse (stringify a) = Some (defined_fields a)"
    by (simp add: reread_advisory)
  then obtain j where "stringify a = Some j" "parse j = defined_fields a"
    by auto
  with Cons show ?case by simp
qed

lemma reread_record:
  assumes "json_value (dependencyType r)" and "\<forall>a\<in>set (vulnerabilities r). advisory_like a"
  shows "map_option parse (stringify (record_value r)) = Some (record_value (without_undefined r))"
proof -
  obtain j where "stringify (dependencyType r) = Some j" "parse j = dependencyType r"
    using assms(1) by (rule stringify_json_value)
  then show ?thesis
    by (simp add: record_value_def without_undefined_def reread_advisories [OF assms(2)])
qed

lemma reread_records:
  "\<forall>r\<in>set rs. json_value (dependencyType r) \<and> (\<forall>a\<in>set (vulnerabilities r). advisory_like a)
   \<Longrightarrow> parse_elements (stringify_elements (map record_value rs))
         = map record_value (map without_undefined rs)"
proof (induction rs)
  case Nil
  show ?case by simp
next
  case (Cons r rs)
  then have "map_option parse (stringify (record_value r))
             = Some (record_value (without_undefined r))"
    by (simp add: reread_record)
  then obtain j where "stringify (record_value r) = Some j"
      "parse j = record_value (without_undefined r)"
    by auto
  with Cons show ?case by simp
qed

lemma summary_without_undefined:
  "summary (saveResults_report now (map without_undefined rs))
   = summary (saveResults_report now rs)"
  by (simp add: saveResults_report_def Let_def without_undefined_def filter_map comp_def)

lemma reread_report:
  assumes "\<forall>r\<in>set rs. json_value (dependencyType r)
                     \<and> (\<forall>a\<in>set (vulnerabilities r). advisory_like a)"
  shows "reread now rs = Some (report_value (saveResults_report now (map without_undefined rs)))"
proof -
  have r: "results (saveResults_report now rs) = rs"
       "results (saveResults_report now (map without_undefined rs)) = map without_undefined rs"
       "scanDate (saveResults_report now rs) = now"
       "scanDate (saveResults_report now (map without_undefined rs)) = now"
    by (simp_all add: saveResults_report_def Let_def)
  show ?thesis
    unfolding reread_def saveResults_def report_value_def
    by (simp add: r summary_without_undefined reread_records [OF assms])
qed

lemma reread_equal:
  "reread now rs = Some (report_value (saveResults_report now rs)) \<longleftrightarrow>
     (\<forall>r\<in>set rs. json_value (dependencyType r) \<and> (\<forall>a\<in>set (vulnerabilities r). json_value a))"
proof -
  have "results (saveResults_report now rs) = rs"
    by (simp add: saveResults_report_def Let_def)
  then show ?thesis
    unfolding reread_def saveResults_def roundtrip_iff json_value_report
    by (simp add: json_value_record)
qed

text \<open>The advisories that the scan builds from JSON objects are of the kind above.\<close>

lemma scan_advisory_like:
  assumes "json_properties vuln"
  shows "advisory_like (advisory_fields vuln)"
proof -
  have "js_prop vuln k = JUndefined \<or> json_value (js_prop vuln k)"
    if "k \<notin> set object_prototype_keys" for k
  proof (cases "map_of vuln k")
    case None
    with that show ?thesis by (simp add: js_prop_def)
  next
    case (Some v)
    have "json_properties ps \<Longrightarrow> map_of ps k = Some v \<Longrightarrow> json_value v" for ps
      by (induction ps) (auto split: if_splits)
    with assms Some show ?thesis by (simp add: js_prop_def)
  qed
  then show ?thesis
    by (simp add: advisory_like_def advisory_fields_def object_prototype_keys_def)
qed

text \<open>
  Claim C9, as the code has it. For every sequence of scan records, the report of
  \<^verbatim>\<open>saveResults\<close>, written as a document and read again, equals the report in
  memory exactly when no record holds a value that a document cannot hold: every
  \<^verbatim>\<open>dependencyType\<close> is a JSON value and every field of every advisory is defined.
  When advisory fields are \<^verbatim>\<open>undefined\<close> in memory (the advisory of the registry
  did not have them), what is read again is the report without these properties: every
  field that holds a value is kept as it is.
\<close>

theorem reread_report_characterised:
  "(reread now rs = Some (report_value (saveResults_report now rs)) \<longleftrightarrow>
      (\<forall>r\<in>set rs. json_value (dependencyType r)
                   \<and> (\<forall>a\<in>set (vulnerabilities r). json_value a)))
   \<and> ((\<forall>r\<in>set rs. json_value (dependencyType r)
                   \<and> (\<forall>a\<in>set (vulnerabilities r). advisory_like a))
        \<longrightarrow> reread now rs
              = Some (report_value (saveResults_report now (map without_undefined rs))))"
  using reread_equal [of now rs] reread_report [of rs now] by blast

text \<open>
  A report whose advisory has its five fields comes back equal; the report of a scan
  whose advisory has an id and a title only comes back with these two.
\<close>

theorem reread_report_characterised_witness:
  "reread ''2025-10-01T00:00:00.000Z'' example_records
     = Some (report_value (saveResults_report ''2025-10-01T00:00:00.000Z'' example_records))
   \<and> scan_entries registry_short_advisory [] [(''axios'', ''1.12.2'')]
       = Inr short_advisory_records
   \<and> reread ''2025-10-01T00:00:00.000Z'' short_advisory_records
       = Some (report_value (saveResults_report ''2025-10-01T00:00:00.000Z''
                 (map without_undefined short_advisory_records)))
   \<and> map vulnerabilities (map without_undefined short_advisory_records)
       = [[JObj [(''id'', JStr ''GHSA-1''), (''title'', JStr ''t'')]]]"
proof -
  let ?now = "''2025-10-01T00:00:00.000Z''"
  have rs: "scan_entries registry_short_advisory [] [(''axios'', ''1.12.2'')]
              = Inr short_advisory_records"
    by (simp add: scan_package_def Let_def getVersionInfo_def getVulnerabilities_def
          registry_short_advisory_def ok_def js_get_def js_prop_def js_member_def
          vulnerability_fields_def advisory_fields_def object_prototype_keys_def
          short_advisory_records_def)
  have h1: "\<forall>r\<in>set example_records.
             json_value (dependencyType r) \<and> (\<forall>a\<in>set (vulnerabilities r). json_value a)"
    by (simp add: example_records_def)
  have h2: "\<forall>r\<in>set short_advisory_records.
             json_value (dependencyType r) \<and> (\<forall>a\<in>set (vulnerabilities r). advisory_like a)"
    by (simp add: short_advisory_records_def advisory_like_def)
  have v: "map vulnerabilities (map without_undefined short_advisory_records)
           = [[JObj [(''id'', JStr ''GHSA-1''), (''title'', JStr ''t'')]]]"
    by (simp add: short_advisory_records_def without_undefined_def defined_fields_def)
  from reread_report_characterised [of ?now example_records, THEN conjunct1, THEN iffD2, OF h1]
       reread_report_characterised [of ?now short_advisory_records, THEN conjunct2, THEN mp,
         OF h2] rs v
  show ?thesis
    by blast
qed

text \<open>
  The claim as it is written fails on an advisory without a severity, a score and a
  summary: the record that the scan builds has the three properties, with the value
  \<^verbatim>\<open>undefined\<close>, and the document read again has not.
\<close>

theorem undefined_fields_dropped_counterexample:
  "scan_entries registry_short_advisory [] [(''axios'', ''1.12.2'')]
     = Inr short_advisory_records
   \<and> map vulnerabilities short_advisory_records
     = [[JObj [(''id'', JStr ''GHSA-1''), (''title'', JStr ''t''), (''severity'', JUndefined),
               (''cvss'', JUndefined), (''summary'', JUndefined)]]]
   \<and> reread ''2025-10-01T00:00:00.000Z'' short_advisory_records
       \<noteq> Some (report_value (saveResults_report ''2025-10-01T00:00:00.000Z''
                 short_advisory_records))"
  by (simp add: reread_def saveResults_def report_value_def saveResults_report_def
        record_value_def scan_package_def Let_def getVersionInfo_def getVulnerabilities_def
        registry_short_advisory_def ok_def js_get_def js_prop_def js_member_def
        vulnerability_fields_def advisory_fields_def object_prototype_keys_def
        short_advisory_records_def)

end
